theory Spec2Isabelle
  imports Main "HOL-Library.Word"
begin

unbundle bit_operations_syntax

section \<open>The ASPEED LPC mailbox driver (drivers/misc/aspeed-lpc-mbox.c)\<close>

text \<open>
  The driver moves bytes between a caller's buffer and sixteen one-byte data registers
  of the mailbox, and drives the handshake bits of the BMC control register. Every
  function of the driver is embedded as a function on an explicit machine state: the
  register map, the driver's open counter, and a trace of what the driver did (bus
  transactions, lock operations, wake-ups, sleeps) together with the kernel log.

  Integer ranges. \<open>count\<close> (\<open>size_t\<close>) and \<open>*ppos\<close> (\<open>loff_t\<close>) are natural numbers:
  the file layer runs a handler only with a position that is not negative and with
  \<open>*ppos + count\<close> representable, so neither the sum in the bound check nor the
  assignment \<open>i = *ppos\<close> can wrap. Register addresses are \<open>unsigned int\<close>, a 32-bit
  word, and \<open>mbox->base + reg\<close> wraps as the C addition does.
\<close>

type_synonym u8 = "8 word"
type_synonym u32 = "32 word"

subsection \<open>Constants of the source and of the kernel headers\<close>

definition ASPEED_MBOX_NUM_REGS :: nat where "ASPEED_MBOX_NUM_REGS = 16"

definition ASPEED_MBOX_DATA_0 :: nat where "ASPEED_MBOX_DATA_0 = 0x00"
definition ASPEED_MBOX_STATUS_0 :: nat where "ASPEED_MBOX_STATUS_0 = 0x40"
definition ASPEED_MBOX_STATUS_1 :: nat where "ASPEED_MBOX_STATUS_1 = 0x44"
definition ASPEED_MBOX_BMC_CTRL :: nat where "ASPEED_MBOX_BMC_CTRL = 0x48"
definition ASPEED_MBOX_CTRL_RECV :: u8 where "ASPEED_MBOX_CTRL_RECV = push_bit 7 1"
definition ASPEED_MBOX_CTRL_MASK :: u8 where "ASPEED_MBOX_CTRL_MASK = push_bit 1 1"
definition ASPEED_MBOX_CTRL_SEND :: u8 where "ASPEED_MBOX_CTRL_SEND = push_bit 0 1"
definition ASPEED_MBOX_HOST_CTRL :: nat where "ASPEED_MBOX_HOST_CTRL = 0x4c"
definition ASPEED_MBOX_INTERRUPT_0 :: nat where "ASPEED_MBOX_INTERRUPT_0 = 0x50"
definition ASPEED_MBOX_INTERRUPT_1 :: nat where "ASPEED_MBOX_INTERRUPT_1 = 0x54"

text \<open>
  Modelled from the spec: the error numbers and \<open>POLLIN\<close> are declared in kernel headers
  that are not under src/. They stand for the spec's result kinds: \<open>WouldBlock\<close> is
  \<open>-EAGAIN\<close>, \<open>Fault\<close> is \<open>-EFAULT\<close>, \<open>Busy\<close> is \<open>-EBUSY\<close>, \<open>InvalidArgument\<close> is
  \<open>-EINVAL\<close>, \<open>Interrupted\<close> is \<open>-ERESTARTSYS\<close>, and poll's "readable" is \<open>POLLIN\<close>. The
  values are the headers'; the properties below only need them distinct and positive.
\<close>

definition EAGAIN :: int where "EAGAIN = 11"
definition EFAULT :: int where "EFAULT = 14"
definition EBUSY :: int where "EBUSY = 16"
definition EINVAL :: int where "EINVAL = 22"
definition ERESTARTSYS :: int where "ERESTARTSYS = 512"
definition POLLIN :: u32 where "POLLIN = 0x0001"

datatype irqreturn = IRQ_NONE | IRQ_HANDLED

subsection \<open>The machine state\<close>

text \<open>
  What the driver does to the outside: a bus transaction (attempted, whether or not it
  succeeds), taking and releasing \<open>mbox->mutex\<close>, \<open>wake_up\<close> and \<open>poll_wait\<close> on
  \<open>mbox->queue\<close>, and going to sleep inside \<open>wait_event_interruptible\<close>.
\<close>

datatype event =
    RegRead u32
  | RegWrite u32 u32
  | MutexLock
  | MutexUnlock
  | WakeUp
  | PollWait
  | Schedule

text \<open>The two \<open>dev_err\<close> messages: the return code, (the data,) and the register.\<close>

datatype logmsg =
    ReadFailed int nat
  | WriteFailed int u8 nat

text \<open>
  \<open>base\<close> is \<open>mbox->base\<close>; \<open>regs\<close> is the content of the register map behind
  \<open>mbox->regmap\<close>; \<open>rd_rc t a\<close> and \<open>wr_rc t a\<close> are the return codes \<open>regmap_read\<close>
  and \<open>regmap_write\<close> give for address \<open>a\<close> when it is the \<open>t\<close>-th bus transaction
  (0 is success), so that any pattern of bus failures is an input; \<open>ticks\<close> counts the
  transactions made; \<open>open_count\<close> is the global \<open>aspeed_mbox_open_count\<close>.
\<close>

record mbox_state =
  base :: u32
  regs :: "u32 \<Rightarrow> u32"
  rd_rc :: "nat \<Rightarrow> u32 \<Rightarrow> int"
  wr_rc :: "nat \<Rightarrow> u32 \<Rightarrow> int"
  ticks :: nat
  open_count :: int
  trace :: "event list"
  klog :: "logmsg list"

definition emit :: "event \<Rightarrow> mbox_state \<Rightarrow> mbox_state" where
  "emit e s = s\<lparr>trace := trace s @ [e]\<rparr>"

subsection \<open>The register bank and the bus\<close>

text \<open>
  Modelled from the spec: the hardware's reaction to a register write is not code of the
  driver. Per the register-bank layout, the RECV bit (bit 7) of the BMC control register
  is write-one-to-clear and the other bits of that register take the value written (so a
  write of the RECV bit value alone clears RECV and leaves MASK clear, "clears and
  unmasks in one step"); the two status registers are write-one-to-clear; every other
  register stores what is written.
\<close>

definition dev_write :: "u32 \<Rightarrow> (u32 \<Rightarrow> u32) \<Rightarrow> u32 \<Rightarrow> u32 \<Rightarrow> (u32 \<Rightarrow> u32)" where
  "dev_write b r a v =
     (if a = b + 0x48 then r(a := (v AND 0x7f) OR (r a AND 0x80 AND NOT v))
      else if a = b + 0x40 \<or> a = b + 0x44 then r(a := r a AND NOT v)
      else r(a := v))"

text \<open>
  Modelled from the spec: \<open>regmap_read\<close> and \<open>regmap_write\<close> are the register-map
  provider, not under src/: "synchronous byte read/write with explicit failure
  signaling", each call "an independent bus transaction; no batching or caching". A
  transaction that fails leaves the register bank, and for a read the caller's variable, as
  they were. \<open>regmap_read(map, a, &val)\<close> gives the return code and the content of \<open>val\<close>
  afterwards (\<open>val0\<close> is what it held before).
\<close>

definition regmap_read :: "mbox_state \<Rightarrow> u32 \<Rightarrow> u32 \<Rightarrow> (int \<times> u32) \<times> mbox_state" where
  "regmap_read s a val0 =
     (let rc = rd_rc s (ticks s) a
      in ((rc, if rc = 0 then regs s a else val0),
          s\<lparr>ticks := Suc (ticks s), trace := trace s @ [RegRead a]\<rparr>))"

definition regmap_write :: "mbox_state \<Rightarrow> u32 \<Rightarrow> u32 \<Rightarrow> int \<times> mbox_state" where
  "regmap_write s a v =
     (let rc = wr_rc s (ticks s) a
      in (rc,
          s\<lparr>regs := (if rc = 0 then dev_write (base s) (regs s) a v else regs s),
            ticks := Suc (ticks s), trace := trace s @ [RegWrite a v]\<rparr>))"

definition aspeed_mbox_inb :: "mbox_state \<Rightarrow> nat \<Rightarrow> u8 \<times> mbox_state" where
  "aspeed_mbox_inb s reg =
     (case regmap_read s (base s + of_nat reg) 0xff of
        ((rc, val), s1) \<Rightarrow>
          (ucast (val AND 0xff),
           if rc \<noteq> 0 then s1\<lparr>klog := klog s1 @ [ReadFailed rc reg]\<rparr> else s1))"

definition aspeed_mbox_outb :: "mbox_state \<Rightarrow> u8 \<Rightarrow> nat \<Rightarrow> mbox_state" where
  "aspeed_mbox_outb s data reg =
     (case regmap_write s (base s + of_nat reg) (ucast data) of
        (rc, s1) \<Rightarrow>
          if rc \<noteq> 0 then s1\<lparr>klog := klog s1 @ [WriteFailed rc data reg]\<rparr> else s1)"

subsection \<open>The caller's buffer\<close>

text \<open>
  Modelled from the spec: \<open>access_ok\<close>, \<open>__put_user\<close> and \<open>__get_user\<close> are the kernel's
  user-memory access, not under src/; the spec's \<open>Fault\<close> is a "caller-side buffer [that]
  could not accept a copied byte". A user-space buffer is addressed by the offset from its
  start: \<open>room\<close> is the number of bytes between the start of the buffer and the end of the
  user address range, so that \<open>access_ok\<close> on \<open>count\<close> bytes is \<open>count \<le> room\<close>;
  \<open>mapped k\<close> says whether a single-byte access at offset \<open>k\<close> succeeds; \<open>bytes\<close> is the
  content.
\<close>

record user_buf =
  room :: nat
  mapped :: "nat \<Rightarrow> bool"
  bytes :: "nat \<Rightarrow> u8"

definition access_ok :: "user_buf \<Rightarrow> nat \<Rightarrow> bool" where
  "access_ok u count = (count \<le> room u)"

text \<open>\<open>__put_user(x, p)\<close> and \<open>__get_user(c, p)\<close>: \<open>None\<close> is the fault.\<close>

definition put_user :: "u8 \<Rightarrow> nat \<Rightarrow> user_buf \<Rightarrow> user_buf option" where
  "put_user x p u = (if mapped u p then Some (u\<lparr>bytes := (bytes u)(p := x)\<rparr>) else None)"

definition get_user :: "nat \<Rightarrow> user_buf \<Rightarrow> u8 option" where
  "get_user p u = (if mapped u p then Some (bytes u p) else None)"

subsection \<open>open and release\<close>

definition aspeed_mbox_open :: "mbox_state \<Rightarrow> int \<times> mbox_state" where
  "aspeed_mbox_open s =
     (let s1 = s\<lparr>open_count := open_count s + 1\<rparr>
      in if open_count s1 = 1
         then (0, aspeed_mbox_outb s1 ASPEED_MBOX_CTRL_RECV ASPEED_MBOX_BMC_CTRL)
         else (- EBUSY, s1\<lparr>open_count := open_count s1 - 1\<rparr>))"

definition aspeed_mbox_release :: "mbox_state \<Rightarrow> int \<times> mbox_state" where
  "aspeed_mbox_release s = (0, s\<lparr>open_count := open_count s - 1\<rparr>)"

subsection \<open>read\<close>

text \<open>
  Modelled from the spec: \<open>wait_event_interruptible(queue, condition)\<close> is the kernel's
  wait primitive, not under src/: "the calling context suspends [...] until RECV is
  observed set or the wait is externally cancelled (yielding \<open>Interrupted\<close>); the wait
  predicate must be re-checked on every wake". The condition is tested once; if it is false
  the task loops: test the condition, return 0 if it holds, return non-zero if a signal is
  pending, sleep otherwise. What happens while the task sleeps is an input: each
  \<open>Wakeup f sig\<close> says how the other side and the interrupt handler changed the registers
  meanwhile, and whether a signal is pending at the wake-up. A task that is never woken
  again does not return: \<open>None\<close>. The result \<open>True\<close> stands for the non-zero return.
\<close>

datatype wakeup = Wakeup "(u32 \<Rightarrow> u32) \<Rightarrow> (u32 \<Rightarrow> u32)" bool

fun wait_loop :: "bool \<Rightarrow> wakeup list \<Rightarrow> mbox_state \<Rightarrow> (bool \<times> mbox_state) option" where
  "wait_loop sigp ws s =
     (case aspeed_mbox_inb s ASPEED_MBOX_BMC_CTRL of
        (c, s1) \<Rightarrow>
          if c AND ASPEED_MBOX_CTRL_RECV \<noteq> 0 then Some (False, s1)
          else if sigp then Some (True, s1)
          else (case ws of
                  [] \<Rightarrow> None
                | Wakeup f sg # ws' \<Rightarrow>
                    wait_loop sg ws' (emit Schedule s1\<lparr>regs := f (regs s1)\<rparr>)))"

definition wait_event_interruptible ::
  "bool \<Rightarrow> wakeup list \<Rightarrow> mbox_state \<Rightarrow> (bool \<times> mbox_state) option" where
  "wait_event_interruptible sigp ws s =
     (case aspeed_mbox_inb s ASPEED_MBOX_BMC_CTRL of
        (c, s1) \<Rightarrow>
          if c AND ASPEED_MBOX_CTRL_RECV \<noteq> 0 then Some (False, s1)
          else wait_loop sigp ws s1)"

text \<open>
  The copy loop of \<open>aspeed_mbox_read\<close> (lines 121 to 130). The result is whether
  \<open>__put_user\<close> faulted (\<open>ret\<close> is then \<open>-EFAULT\<close>), the pointer \<open>p\<close> as an offset from
  \<open>buf\<close>, the buffer and the state.
\<close>

function read_loop ::
  "nat \<Rightarrow> nat \<Rightarrow> nat \<Rightarrow> user_buf \<Rightarrow> mbox_state \<Rightarrow> bool \<times> nat \<times> user_buf \<times> mbox_state" where
  "read_loop i count p u s =
     (if count > 0 \<and> i < ASPEED_MBOX_NUM_REGS then
        (case aspeed_mbox_inb s (ASPEED_MBOX_DATA_0 + i * 4) of
           (reg, s1) \<Rightarrow>
             (case put_user reg p u of
                None \<Rightarrow> (True, p, u, s1)
              | Some u1 \<Rightarrow> read_loop (i + 1) (count - 1) (p + 1) u1 s1))
      else (False, p, u, s))"
  by pat_completeness auto
termination
  by (relation "measure (\<lambda>(i, count, p, u, s). count)") auto

text \<open>Lines 119 to 138: from \<open>mutex_lock\<close> to the return.\<close>

definition read_locked :: "user_buf \<Rightarrow> nat \<Rightarrow> nat \<Rightarrow> mbox_state \<Rightarrow> int \<times> user_buf \<times> mbox_state" where
  "read_locked u count ppos s =
     (case read_loop ppos count 0 u (emit MutexLock s) of
        (fault, p, u1, s1) \<Rightarrow>
          if fault then (- EFAULT, u1, emit MutexUnlock s1)
          else (int p, u1,
                emit MutexUnlock (aspeed_mbox_outb s1 ASPEED_MBOX_CTRL_RECV ASPEED_MBOX_BMC_CTRL)))"

text \<open>
  \<open>aspeed_mbox_read(file, buf, count, ppos)\<close>: \<open>nonblock\<close> is \<open>file->f_flags & O_NONBLOCK\<close>;
  \<open>sigp\<close> and \<open>ws\<close> are what happens around a blocking wait. The result is the return
  value, the caller's buffer and the state; \<open>None\<close> when the call never returns.
\<close>

definition aspeed_mbox_read ::
  "bool \<Rightarrow> bool \<Rightarrow> wakeup list \<Rightarrow> user_buf \<Rightarrow> nat \<Rightarrow> nat \<Rightarrow> mbox_state
     \<Rightarrow> (int \<times> user_buf \<times> mbox_state) option" where
  "aspeed_mbox_read nonblock sigp ws u count ppos s =
     (if \<not> access_ok u count then Some (- EFAULT, u, s)
      else if count + ppos > ASPEED_MBOX_NUM_REGS then Some (- EINVAL, u, s)
      else if nonblock then
        (case aspeed_mbox_inb s ASPEED_MBOX_BMC_CTRL of
           (c, s1) \<Rightarrow>
             if \<not> (c AND ASPEED_MBOX_CTRL_RECV \<noteq> 0) then Some (- EAGAIN, u, s1)
             else Some (read_locked u count ppos s1))
      else
        (case wait_event_interruptible sigp ws s of
           None \<Rightarrow> None
         | Some (interrupted, s1) \<Rightarrow>
             if interrupted then Some (- ERESTARTSYS, u, s1)
             else Some (read_locked u count ppos s1)))"

subsection \<open>write\<close>

text \<open>The copy loop of \<open>aspeed_mbox_write\<close> (lines 158 to 166).\<close>

function write_loop ::
  "nat \<Rightarrow> nat \<Rightarrow> nat \<Rightarrow> user_buf \<Rightarrow> mbox_state \<Rightarrow> bool \<times> nat \<times> mbox_state" where
  "write_loop i count p u s =
     (if count > 0 \<and> i < ASPEED_MBOX_NUM_REGS then
        (case get_user p u of
           None \<Rightarrow> (True, p, s)
         | Some c \<Rightarrow>
             write_loop (i + 1) (count - 1) (p + 1) u
               (aspeed_mbox_outb s c (ASPEED_MBOX_DATA_0 + i * 4)))
      else (False, p, s))"
  by pat_completeness auto
termination
  by (relation "measure (\<lambda>(i, count, p, u, s). count)") auto

definition aspeed_mbox_write :: "user_buf \<Rightarrow> nat \<Rightarrow> nat \<Rightarrow> mbox_state \<Rightarrow> int \<times> mbox_state" where
  "aspeed_mbox_write u count ppos s =
     (if \<not> access_ok u count then (- EFAULT, s)
      else if count + ppos > ASPEED_MBOX_NUM_REGS then (- EINVAL, s)
      else
        (case write_loop ppos count 0 u (emit MutexLock s) of
           (fault, p, s1) \<Rightarrow>
             if fault then (- EFAULT, emit MutexUnlock s1)
             else (int p,
                   emit MutexUnlock
                     (aspeed_mbox_outb s1 ASPEED_MBOX_CTRL_SEND ASPEED_MBOX_BMC_CTRL))))"

subsection \<open>poll and the interrupt handler\<close>

definition aspeed_mbox_poll :: "mbox_state \<Rightarrow> u32 \<times> mbox_state" where
  "aspeed_mbox_poll s =
     (case aspeed_mbox_inb (emit PollWait s) ASPEED_MBOX_BMC_CTRL of
        (c, s1) \<Rightarrow>
          (if c AND ASPEED_MBOX_CTRL_RECV \<noteq> 0 then 0 OR POLLIN else 0, s1))"

definition aspeed_mbox_irq :: "mbox_state \<Rightarrow> irqreturn \<times> mbox_state" where
  "aspeed_mbox_irq s =
     (case aspeed_mbox_inb s ASPEED_MBOX_BMC_CTRL of
        (c, s1) \<Rightarrow>
          if \<not> (c AND ASPEED_MBOX_CTRL_RECV \<noteq> 0) then (IRQ_NONE, s1)
          else (IRQ_HANDLED,
                emit WakeUp (aspeed_mbox_outb s1 ASPEED_MBOX_CTRL_MASK ASPEED_MBOX_BMC_CTRL)))"

subsection \<open>Closed forms of the register accesses and of the two copy loops\<close>

text \<open>
  The addresses of data register \<open>j\<close> and of the BMC control register; what
  \<open>aspeed_mbox_inb\<close> returns and what the accessors log when the access is the
  \<open>t\<close>-th bus transaction; the state and the buffer after \<open>n\<close> rounds of a copy loop
  that starts at register \<open>i\<close> and buffer offset \<open>p\<close>.
\<close>

definition data_addr :: "u32 \<Rightarrow> nat \<Rightarrow> u32" where
  "data_addr b j = b + of_nat (ASPEED_MBOX_DATA_0 + j * 4)"

definition ctrl_addr :: "u32 \<Rightarrow> u32" where
  "ctrl_addr b = b + of_nat ASPEED_MBOX_BMC_CTRL"

definition inb_value :: "mbox_state \<Rightarrow> nat \<Rightarrow> u32 \<Rightarrow> u8" where
  "inb_value s t a = (if rd_rc s t a = 0 then ucast (regs s a) else 0xff)"

definition inb_log :: "mbox_state \<Rightarrow> nat \<Rightarrow> u32 \<Rightarrow> nat \<Rightarrow> logmsg list" where
  "inb_log s t a reg = (if rd_rc s t a \<noteq> 0 then [ReadFailed (rd_rc s t a) reg] else [])"

definition outb_log :: "mbox_state \<Rightarrow> nat \<Rightarrow> u32 \<Rightarrow> u8 \<Rightarrow> nat \<Rightarrow> logmsg list" where
  "outb_log s t a d reg = (if wr_rc s t a \<noteq> 0 then [WriteFailed (wr_rc s t a) d reg] else [])"

definition read_state :: "mbox_state \<Rightarrow> nat \<Rightarrow> nat \<Rightarrow> mbox_state" where
  "read_state s i n =
     s\<lparr>ticks := ticks s + n,
       trace := trace s @ map (\<lambda>j. RegRead (data_addr (base s) j)) [i..<i + n],
       klog := klog s @ concat (map (\<lambda>j. inb_log s (ticks s + (j - i)) (data_addr (base s) j)
                                             (ASPEED_MBOX_DATA_0 + j * 4)) [i..<i + n])\<rparr>"

definition read_buf :: "user_buf \<Rightarrow> mbox_state \<Rightarrow> nat \<Rightarrow> nat \<Rightarrow> nat \<Rightarrow> user_buf" where
  "read_buf u s i p n =
     u\<lparr>bytes := (\<lambda>k. if p \<le> k \<and> k < p + n
                      then inb_value s (ticks s + (k - p)) (data_addr (base s) (i + (k - p)))
                      else bytes u k)\<rparr>"

primrec write_regs :: "mbox_state \<Rightarrow> user_buf \<Rightarrow> nat \<Rightarrow> nat \<Rightarrow> nat \<Rightarrow> (u32 \<Rightarrow> u32)" where
  "write_regs s u i p 0 = regs s"
| "write_regs s u i p (Suc n) =
     (if wr_rc s (ticks s + n) (data_addr (base s) (i + n)) = 0
      then dev_write (base s) (write_regs s u i p n)
             (data_addr (base s) (i + n)) (ucast (bytes u (p + n)))
      else write_regs s u i p n)"

definition write_state :: "mbox_state \<Rightarrow> user_buf \<Rightarrow> nat \<Rightarrow> nat \<Rightarrow> nat \<Rightarrow> mbox_state" where
  "write_state s u i p n =
     s\<lparr>regs := write_regs s u i p n,
       ticks := ticks s + n,
       trace := trace s @ map (\<lambda>j. RegWrite (data_addr (base s) j)
                                     (ucast (bytes u (p + (j - i))))) [i..<i + n],
       klog := klog s @ concat (map (\<lambda>j. outb_log s (ticks s + (j - i)) (data_addr (base s) j)
                                             (bytes u (p + (j - i)))
                                             (ASPEED_MBOX_DATA_0 + j * 4)) [i..<i + n])\<rparr>"

subsection \<open>Vocabulary of the statements\<close>


text \<open>What the caller of read sees: the return value and the buffer.\<close>

definition visible :: "(int \<times> user_buf \<times> mbox_state) option \<Rightarrow> (int \<times> user_buf) option" where
  "visible r = map_option (\<lambda>(ret, u', s'). (ret, u')) r"

text \<open>
  The same mailbox, but with RECV set in the BMC control register and with the next bus
  transaction, if it reads that register, succeeding.
\<close>

definition pending_twin :: "mbox_state \<Rightarrow> mbox_state" where
  "pending_twin s =
     s\<lparr>regs := (regs s)(ctrl_addr (base s) := regs s (ctrl_addr (base s)) OR 0x80),
       rd_rc := (rd_rc s)(ticks s := (rd_rc s (ticks s))(ctrl_addr (base s) := 0))\<rparr>"

subsection \<open>Sample inputs\<close>

text \<open>
  A mailbox at offset \<open>0x180\<close> of the register map (data register \<open>j\<close> at \<open>0x180 + 4j\<close>, the
  BMC control register at \<open>0x1c8\<close>), one session open. \<open>s_idle\<close>: nothing pending, no bus
  failures. \<open>s_unmasked\<close>: RECV set, the interrupt not yet masked. \<open>s_masked\<close>: the same
  after the interrupt handler has run. \<open>s_pending\<close>: RECV and MASK set, and \<open>0x11\<close>,
  \<open>0x22\<close>, \<open>0x33\<close> in data registers 2, 3, 4. \<open>s_flaky\<close>: the same on a bus where every
  access to data register 3 fails with \<open>-5\<close>. \<open>s_ctrl_dead\<close>: RECV clear, the same data,
  on a bus where every read of the control register fails with \<open>-5\<close>.
  \<open>host_sends\<close> is what the other side does to the registers when it sends that message.
\<close>

definition s_idle :: mbox_state where
  "s_idle = \<lparr>base = 0x180, regs = (\<lambda>a. 0), rd_rc = (\<lambda>t a. 0), wr_rc = (\<lambda>t a. 0),
              ticks = 0, open_count = 1, trace = [], klog = []\<rparr>"

definition s_unmasked :: mbox_state where
  "s_unmasked = s_idle\<lparr>regs := (\<lambda>a. 0)(0x1c8 := 0x80)\<rparr>"


definition s_pending :: mbox_state where
  "s_pending = s_idle\<lparr>regs := (\<lambda>a. 0)(0x188 := 0x11, 0x18c := 0x22, 0x190 := 0x33, 0x1c8 := 0x82)\<rparr>"

definition s_flaky :: mbox_state where
  "s_flaky = s_pending\<lparr>rd_rc := (\<lambda>t a. if a = 0x18c then - 5 else 0),
                        wr_rc := (\<lambda>t a. if a = 0x18c then - 5 else 0)\<rparr>"

definition s_ctrl_dead :: mbox_state where
  "s_ctrl_dead = s_idle\<lparr>rd_rc := (\<lambda>t a. if a = 0x1c8 then - 5 else 0),
                        regs := (\<lambda>a. 0)(0x188 := 0x11, 0x18c := 0x22, 0x190 := 0x33)\<rparr>"

definition host_sends :: "(u32 \<Rightarrow> u32) \<Rightarrow> (u32 \<Rightarrow> u32)" where
  "host_sends r = r(0x188 := 0x11, 0x18c := 0x22, 0x190 := 0x33, 0x1c8 := 0x80)"

text \<open>
  Callers' buffers of 16 bytes: \<open>u_ok\<close> accepts every byte; \<open>u_src\<close> holds \<open>0xa0\<close>,
  \<open>0xa1\<close>, ... and every byte of it can be read; \<open>u_fault n\<close> faults from offset \<open>n\<close>
  on; \<open>u_noaccess\<close> lies outside the user address range.
\<close>

definition u_ok :: user_buf where
  "u_ok = \<lparr>room = 16, mapped = (\<lambda>k. True), bytes = (\<lambda>k. 0)\<rparr>"

definition u_src :: user_buf where
  "u_src = \<lparr>room = 16, mapped = (\<lambda>k. True), bytes = (\<lambda>k. 0xa0 + of_nat k)\<rparr>"

definition u_fault :: "nat \<Rightarrow> user_buf" where
  "u_fault n = \<lparr>room = 16, mapped = (\<lambda>k. k < n), bytes = (\<lambda>k. 0)\<rparr>"

definition u_noaccess :: user_buf where
  "u_noaccess = \<lparr>room = 0, mapped = (\<lambda>k. True), bytes = (\<lambda>k. 0)\<rparr>"


section \<open>Properties\<close>

lemma emit_simps:
  "trace (emit e s) = trace s @ [e]" "regs (emit e s) = regs s" "base (emit e s) = base s"
  "ticks (emit e s) = ticks s" "klog (emit e s) = klog s" "open_count (emit e s) = open_count s"
  "rd_rc (emit e s) = rd_rc s" "wr_rc (emit e s) = wr_rc s"
  by (simp_all add: emit_def)

declare read_loop.simps [simp del] write_loop.simps [simp del]

subsection \<open>Addresses\<close>

lemma of_nat_u32_inj: "a < 2 ^ 32 \<Longrightarrow> b < 2 ^ 32 \<Longrightarrow> ((of_nat a :: u32) = of_nat b) = (a = b)"
  by (simp add: word_of_nat_eq_iff take_bit_nat_eq_self)

lemma data_addr_inj: "j < 16 \<Longrightarrow> k < 16 \<Longrightarrow> (data_addr b j = data_addr b k) = (j = k)"
  using of_nat_u32_inj[of "j * 4" "k * 4"]
  by (simp add: data_addr_def ASPEED_MBOX_DATA_0_def del: of_nat_mult)

lemma ctrl_addr_eq: "ctrl_addr b = b + 0x48"
  by (simp add: ctrl_addr_def ASPEED_MBOX_BMC_CTRL_def)

lemma data_addr_ne:
  "j < 16 \<Longrightarrow> data_addr b j \<noteq> b + 0x48"
  "j < 16 \<Longrightarrow> data_addr b j \<noteq> b + 0x40"
  "j < 16 \<Longrightarrow> data_addr b j \<noteq> b + 0x44"
  using of_nat_u32_inj[of "j * 4" "0x48"] of_nat_u32_inj[of "j * 4" "0x40"] of_nat_u32_inj[of "j * 4" "0x44"]
  by (simp_all add: data_addr_def ASPEED_MBOX_DATA_0_def del: of_nat_mult)

lemma data_addr_ne_ctrl: "j < 16 \<Longrightarrow> data_addr b j \<noteq> ctrl_addr b"
  by (simp add: ctrl_addr_eq data_addr_ne)

subsection \<open>The register accessors\<close>

lemma ucast_and_ff: "(ucast ((w::u32) AND 0xff) :: u8) = ucast w"
proof -
  have m: "(0xff::u32) = mask 8" by (simp add: mask_eq_exp_minus_1)
  show ?thesis unfolding m by (rule bit_word_eqI) (simp add: bit_simps)
qed

lemma inb_eq:
  "aspeed_mbox_inb s reg =
     (inb_value s (ticks s) (base s + of_nat reg),
      s\<lparr>ticks := Suc (ticks s), trace := trace s @ [RegRead (base s + of_nat reg)],
        klog := klog s @ inb_log s (ticks s) (base s + of_nat reg) reg\<rparr>)"
  by (simp add: aspeed_mbox_inb_def regmap_read_def inb_value_def inb_log_def Let_def ucast_and_ff)

lemma inb_data:
  "aspeed_mbox_inb s (ASPEED_MBOX_DATA_0 + j * 4) =
     (inb_value s (ticks s) (data_addr (base s) j),
      s\<lparr>ticks := Suc (ticks s), trace := trace s @ [RegRead (data_addr (base s) j)],
        klog := klog s @ inb_log s (ticks s) (data_addr (base s) j) (ASPEED_MBOX_DATA_0 + j * 4)\<rparr>)"
  unfolding data_addr_def by (rule inb_eq)

lemma inb_ctrl:
  "aspeed_mbox_inb s ASPEED_MBOX_BMC_CTRL =
     (inb_value s (ticks s) (ctrl_addr (base s)),
      s\<lparr>ticks := Suc (ticks s), trace := trace s @ [RegRead (ctrl_addr (base s))],
        klog := klog s @ inb_log s (ticks s) (ctrl_addr (base s)) ASPEED_MBOX_BMC_CTRL\<rparr>)"
  unfolding ctrl_addr_def by (rule inb_eq)

lemma outb_eq:
  "aspeed_mbox_outb s d reg =
     s\<lparr>regs := (if wr_rc s (ticks s) (base s + of_nat reg) = 0
               then dev_write (base s) (regs s) (base s + of_nat reg) (ucast d) else regs s),
       ticks := Suc (ticks s), trace := trace s @ [RegWrite (base s + of_nat reg) (ucast d)],
       klog := klog s @ outb_log s (ticks s) (base s + of_nat reg) d reg\<rparr>"
  by (simp add: aspeed_mbox_outb_def regmap_write_def outb_log_def Let_def)

lemma outb_data:
  "aspeed_mbox_outb s d (ASPEED_MBOX_DATA_0 + j * 4) =
     s\<lparr>regs := (if wr_rc s (ticks s) (data_addr (base s) j) = 0
               then dev_write (base s) (regs s) (data_addr (base s) j) (ucast d) else regs s),
       ticks := Suc (ticks s), trace := trace s @ [RegWrite (data_addr (base s) j) (ucast d)],
       klog := klog s @ outb_log s (ticks s) (data_addr (base s) j) d (ASPEED_MBOX_DATA_0 + j * 4)\<rparr>"
  unfolding data_addr_def by (rule outb_eq)

lemma outb_ctrl:
  "aspeed_mbox_outb s d ASPEED_MBOX_BMC_CTRL =
     s\<lparr>regs := (if wr_rc s (ticks s) (ctrl_addr (base s)) = 0
               then dev_write (base s) (regs s) (ctrl_addr (base s)) (ucast d) else regs s),
       ticks := Suc (ticks s), trace := trace s @ [RegWrite (ctrl_addr (base s)) (ucast d)],
       klog := klog s @ outb_log s (ticks s) (ctrl_addr (base s)) d ASPEED_MBOX_BMC_CTRL\<rparr>"
  unfolding ctrl_addr_def by (rule outb_eq)

subsection \<open>The copy loop of read\<close>

lemma read_state_0: "read_state s i 0 = s"
  by (simp add: read_state_def)

lemma read_buf_0: "read_buf u s i p 0 = u"
proof -
  have "(\<lambda>k. if p \<le> k \<and> k < p + 0
              then inb_value s (ticks s + (k - p)) (data_addr (base s) (i + (k - p)))
              else bytes u k) = bytes u"
    by (auto simp add: fun_eq_iff)
  then show ?thesis unfolding read_buf_def by simp
qed

lemma read_state_next:
  "aspeed_mbox_inb (read_state s i n) (ASPEED_MBOX_DATA_0 + (i + n) * 4) =
     (inb_value s (ticks s + n) (data_addr (base s) (i + n)), read_state s i (Suc n))"
  by (subst inb_data) (simp add: read_state_def inb_log_def inb_value_def)

lemma read_loop_steps:
  "n \<le> count \<Longrightarrow> i + n \<le> ASPEED_MBOX_NUM_REGS \<Longrightarrow> (\<forall>k<n. mapped u (p + k)) \<Longrightarrow>
   read_loop i count p u s =
     read_loop (i + n) (count - n) (p + n) (read_buf u s i p n) (read_state s i n)"
proof (induction n)
  case 0
  then show ?case by (simp add: read_state_0 read_buf_0)
next
  case (Suc n)
  define v where "v = inb_value s (ticks s + n) (data_addr (base s) (i + n))"
  have m: "mapped (read_buf u s i p n) (p + n)"
    using Suc.prems by (simp add: read_buf_def)
  have bf: "(read_buf u s i p n)\<lparr>bytes := (bytes (read_buf u s i p n))(p + n := v)\<rparr>
            = read_buf u s i p (Suc n)"
    by (auto simp add: read_buf_def v_def fun_eq_iff)
  have c: "0 < count - n \<and> i + n < ASPEED_MBOX_NUM_REGS" using Suc.prems by simp
  have pu: "put_user v (p + n) (read_buf u s i p n) = Some (read_buf u s i p (Suc n))"
    using m bf by (simp add: put_user_def)
  have "read_loop i count p u s =
     read_loop (i + n) (count - n) (p + n) (read_buf u s i p n) (read_state s i n)"
    using Suc by simp
  also have "\<dots> = read_loop (i + Suc n) (count - Suc n) (p + Suc n)
                     (read_buf u s i p (Suc n)) (read_state s i (Suc n))"
    by (subst read_loop.simps)
       (simp only: c if_True read_state_next prod.case pu option.case v_def[symmetric], simp)
  finally show ?case .
qed

lemma read_loop_ok:
  assumes "count + i \<le> ASPEED_MBOX_NUM_REGS" "\<forall>k<count. mapped u (p + k)"
  shows "read_loop i count p u s = (False, p + count, read_buf u s i p count, read_state s i count)"
proof -
  have "read_loop i count p u s =
     read_loop (i + count) (count - count) (p + count) (read_buf u s i p count) (read_state s i count)"
    using assms by (intro read_loop_steps) simp_all
  then show ?thesis by (simp add: read_loop.simps)
qed

lemma read_loop_fault:
  assumes "count + i \<le> ASPEED_MBOX_NUM_REGS" "n < count" "\<forall>k<n. mapped u (p + k)"
    "\<not> mapped u (p + n)"
  shows "read_loop i count p u s = (True, p + n, read_buf u s i p n, read_state s i (Suc n))"
proof -
  define v where "v = inb_value s (ticks s + n) (data_addr (base s) (i + n))"
  have c: "0 < count - n \<and> i + n < ASPEED_MBOX_NUM_REGS" using assms by simp
  have pu: "put_user v (p + n) (read_buf u s i p n) = None"
    using assms by (simp add: put_user_def read_buf_def)
  have "read_loop i count p u s =
     read_loop (i + n) (count - n) (p + n) (read_buf u s i p n) (read_state s i n)"
    using assms by (intro read_loop_steps) simp_all
  also have "\<dots> = (True, p + n, read_buf u s i p n, read_state s i (Suc n))"
    by (subst read_loop.simps)
       (simp only: c if_True read_state_next prod.case pu option.case v_def[symmetric], simp)
  finally show ?thesis .
qed

text \<open>Either every offset below \<open>count\<close> is mapped, or there is a first one that is not.\<close>

lemma first_unmapped:
  "(\<forall>k<count. mapped u k) \<or> (\<exists>n<count. (\<forall>k<n. mapped u k) \<and> \<not> mapped u n)"
proof (cases "\<forall>k<count. mapped u k")
  case True
  then show ?thesis by simp
next
  case False
  then obtain m where m: "m < count" "\<not> mapped u m" by auto
  define n where "n = (LEAST k. \<not> mapped u k)"
  have "\<not> mapped u n" unfolding n_def using m(2) by (rule LeastI)
  moreover have "n \<le> m" unfolding n_def using m(2) by (rule Least_le)
  moreover have "\<forall>k<n. mapped u k" unfolding n_def using not_less_Least by blast
  ultimately have "\<exists>n<count. (\<forall>k<n. mapped u k) \<and> \<not> mapped u n"
    using m(1) by (intro exI[of _ n]) simp
  then show ?thesis ..
qed

subsection \<open>The copy loop of write\<close>

lemma write_state_0: "write_state s u i p 0 = s"
  by (simp add: write_state_def)

lemma write_state_next:
  "aspeed_mbox_outb (write_state s u i p n) (bytes u (p + n)) (ASPEED_MBOX_DATA_0 + (i + n) * 4)
     = write_state s u i p (Suc n)"
  by (subst outb_data) (simp add: write_state_def outb_log_def)

lemma write_loop_steps:
  "n \<le> count \<Longrightarrow> i + n \<le> ASPEED_MBOX_NUM_REGS \<Longrightarrow> (\<forall>k<n. mapped u (p + k)) \<Longrightarrow>
   write_loop i count p u s = write_loop (i + n) (count - n) (p + n) u (write_state s u i p n)"
proof (induction n)
  case 0
  then show ?case by (simp add: write_state_0)
next
  case (Suc n)
  have c: "0 < count - n \<and> i + n < ASPEED_MBOX_NUM_REGS" using Suc.prems by simp
  have gu: "get_user (p + n) u = Some (bytes u (p + n))"
    using Suc.prems by (simp add: get_user_def)
  have "write_loop i count p u s = write_loop (i + n) (count - n) (p + n) u (write_state s u i p n)"
    using Suc by simp
  also have "\<dots> = write_loop (i + Suc n) (count - Suc n) (p + Suc n) u (write_state s u i p (Suc n))"
    by (subst write_loop.simps) (simp only: c if_True gu option.case write_state_next, simp)
  finally show ?case .
qed

lemma write_loop_ok:
  assumes "count + i \<le> ASPEED_MBOX_NUM_REGS" "\<forall>k<count. mapped u (p + k)"
  shows "write_loop i count p u s = (False, p + count, write_state s u i p count)"
proof -
  have "write_loop i count p u s =
     write_loop (i + count) (count - count) (p + count) u (write_state s u i p count)"
    using assms by (intro write_loop_steps) simp_all
  then show ?thesis by (simp add: write_loop.simps)
qed

lemma write_loop_fault:
  assumes "count + i \<le> ASPEED_MBOX_NUM_REGS" "n < count" "\<forall>k<n. mapped u (p + k)"
    "\<not> mapped u (p + n)"
  shows "write_loop i count p u s = (True, p + n, write_state s u i p n)"
proof -
  have c: "0 < count - n \<and> i + n < ASPEED_MBOX_NUM_REGS" using assms by simp
  have gu: "get_user (p + n) u = None"
    using assms by (simp add: get_user_def)
  have "write_loop i count p u s = write_loop (i + n) (count - n) (p + n) u (write_state s u i p n)"
    using assms by (intro write_loop_steps) simp_all
  also have "\<dots> = (True, p + n, write_state s u i p n)"
    by (subst write_loop.simps) (simp only: c if_True gu option.case, simp)
  finally show ?thesis .
qed

text \<open>A data register written by the loop holds the byte written; the others are untouched.\<close>

lemma dev_write_other: "a' \<noteq> a \<Longrightarrow> dev_write b r a v a' = r a'"
  by (auto simp add: dev_write_def)

lemma dev_write_data: "j < 16 \<Longrightarrow> dev_write b r (data_addr b j) v (data_addr b j) = v"
  by (simp add: dev_write_def data_addr_ne)

lemma write_regs_other:
  assumes "\<forall>j. i \<le> j \<and> j < i + n \<longrightarrow> a \<noteq> data_addr (base s) j"
  shows "write_regs s u i p n a = regs s a"
  using assms
proof (induction n)
  case 0
  then show ?case by simp
next
  case (Suc n)
  have ne: "a \<noteq> data_addr (base s) (i + n)"
    using Suc.prems by simp
  have "write_regs s u i p n a = regs s a"
    using Suc by simp
  then show ?case by (simp add: dev_write_other[OF ne])
qed

lemma write_regs_data:
  assumes "i + n \<le> 16" "i \<le> j" "j < i + n"
  shows "write_regs s u i p n (data_addr (base s) j) =
           (if wr_rc s (ticks s + (j - i)) (data_addr (base s) j) = 0
            then ucast (bytes u (p + (j - i)))
            else regs s (data_addr (base s) j))"
  using assms
proof (induction n)
  case 0
  then show ?case by simp
next
  case (Suc n)
  show ?case
  proof (cases "j = i + n")
    case True
    have old: "write_regs s u i p n (data_addr (base s) (i + n)) = regs s (data_addr (base s) (i + n))"
      using Suc.prems(1) by (intro write_regs_other) (simp add: data_addr_inj)
    show ?thesis
      unfolding True using Suc.prems(1) by (simp add: dev_write_data old)
  next
    case False
    then have lt: "j < i + n" using Suc.prems by simp
    have ne: "data_addr (base s) j \<noteq> data_addr (base s) (i + n)"
      using Suc.prems False by (simp add: data_addr_inj)
    have "write_regs s u i p n (data_addr (base s) j) =
           (if wr_rc s (ticks s + (j - i)) (data_addr (base s) j) = 0
            then ucast (bytes u (p + (j - i))) else regs s (data_addr (base s) j))"
      using Suc lt by simp
    then show ?thesis by (simp add: dev_write_other[OF ne])
  qed
qed

subsection \<open>The handshake writes\<close>

lemma ucast_ctrl_bits:
  "(ucast ASPEED_MBOX_CTRL_RECV :: u32) = 0x80"
  "(ucast ASPEED_MBOX_CTRL_MASK :: u32) = 0x02"
  "(ucast ASPEED_MBOX_CTRL_SEND :: u32) = 0x01"
  by (simp_all add: ASPEED_MBOX_CTRL_RECV_def ASPEED_MBOX_CTRL_MASK_def ASPEED_MBOX_CTRL_SEND_def)

lemma and_80_not_80: "(x::u32) AND 0x80 AND NOT 0x80 = 0"
  by (simp add: and.assoc)

lemma bit_80: "bit (0x80::u32) n = (n = 7)"
proof -
  have "(0x80::u32) = 2 ^ 7" by simp
  then show ?thesis by (simp only: bit_exp_iff) auto
qed

lemma and_80_not_2: "(x::u32) AND 0x80 AND NOT 0x02 = x AND 0x80"
proof -
  have b2: "bit (0x02::u32) n = (n = 1)" for n
    using bit_exp_iff[where ?'a = u32, of 1 n] by auto
  show ?thesis
    by (rule bit_word_eqI) (auto simp add: bit_and_iff bit_not_iff bit_80 b2)
qed

lemma and_80_not_1: "(x::u32) AND 0x80 AND NOT 0x01 = x AND 0x80"
proof -
  have b1: "bit (0x01::u32) n = (n = 0)" for n by (simp add: bit_1_iff)
  show ?thesis
    by (rule bit_word_eqI) (auto simp add: bit_and_iff bit_not_iff bit_80 b1)
qed

text \<open>The acknowledge, the mask and the send write, as the control register takes them.\<close>

lemma dev_write_ack: "dev_write b r (ctrl_addr b) 0x80 = r(ctrl_addr b := 0)"
  by (simp add: dev_write_def ctrl_addr_eq and_80_not_80)

lemma dev_write_mask:
  "dev_write b r (ctrl_addr b) 0x02 = r(ctrl_addr b := 0x02 OR (r (ctrl_addr b) AND 0x80))"
  by (simp add: dev_write_def ctrl_addr_eq and_80_not_2)

lemma dev_write_send:
  "dev_write b r (ctrl_addr b) 0x01 = r(ctrl_addr b := 0x01 OR (r (ctrl_addr b) AND 0x80))"
  by (simp add: dev_write_def ctrl_addr_eq and_80_not_1)

text \<open>The RECV test on the byte read is the test of bit 7.\<close>

lemma recv_test: "((c::u8) AND ASPEED_MBOX_CTRL_RECV \<noteq> 0) = bit c 7"
proof -
  show ?thesis
    using and_exp_eq_0_iff_not_bit[of c 7] by (simp add: ASPEED_MBOX_CTRL_RECV_def)
qed

lemma recv_sentinel: "(0xff::u8) AND ASPEED_MBOX_CTRL_RECV \<noteq> 0"
  by (simp add: ASPEED_MBOX_CTRL_RECV_def)

subsection \<open>read from the lock to the return\<close>

lemma read_buf_emit: "read_buf u (emit e s) i p n = read_buf u s i p n"
  by (simp add: read_buf_def inb_value_def emit_simps cong: if_cong)

lemma read_locked_ok:
  assumes "count + ppos \<le> ASPEED_MBOX_NUM_REGS" "\<forall>k<count. mapped u k"
  shows "read_locked u count ppos s =
     (int count, read_buf u s ppos 0 count,
      emit MutexUnlock
        (aspeed_mbox_outb (read_state (emit MutexLock s) ppos count)
           ASPEED_MBOX_CTRL_RECV ASPEED_MBOX_BMC_CTRL))"
  using assms by (simp add: read_locked_def read_loop_ok read_buf_emit)

lemma read_locked_fault:
  assumes "count + ppos \<le> ASPEED_MBOX_NUM_REGS" "n < count" "\<forall>k<n. mapped u k" "\<not> mapped u n"
  shows "read_locked u count ppos s =
     (- EFAULT, read_buf u s ppos 0 n, emit MutexUnlock (read_state (emit MutexLock s) ppos (Suc n)))"
  using assms by (simp add: read_locked_def read_loop_fault[where n = n] read_buf_emit)

lemma read_locked_ok_trace:
  assumes "count + ppos \<le> ASPEED_MBOX_NUM_REGS" "\<forall>k<count. mapped u k"
  shows "trace (snd (snd (read_locked u count ppos s))) =
           trace s @ [MutexLock] @ map (\<lambda>j. RegRead (data_addr (base s) j)) [ppos..<ppos + count]
             @ [RegWrite (ctrl_addr (base s)) 0x80, MutexUnlock]"
  using assms
  by (simp add: read_locked_ok outb_ctrl read_state_def emit_def ucast_ctrl_bits)

lemma read_locked_ok_regs:
  assumes "count + ppos \<le> ASPEED_MBOX_NUM_REGS" "\<forall>k<count. mapped u k"
  shows "regs (snd (snd (read_locked u count ppos s))) =
           (if wr_rc s (ticks s + count) (ctrl_addr (base s)) = 0
            then (regs s)(ctrl_addr (base s) := 0) else regs s)"
  using assms
  by (simp add: read_locked_ok outb_ctrl read_state_def emit_def ucast_ctrl_bits dev_write_ack)

lemma read_locked_ok_klog:
  assumes "count + ppos \<le> ASPEED_MBOX_NUM_REGS" "\<forall>k<count. mapped u k"
  shows "klog (snd (snd (read_locked u count ppos s))) =
           klog s @ concat (map (\<lambda>j. inb_log s (ticks s + (j - ppos)) (data_addr (base s) j)
                                        (ASPEED_MBOX_DATA_0 + j * 4)) [ppos..<ppos + count])
             @ outb_log s (ticks s + count) (ctrl_addr (base s)) ASPEED_MBOX_CTRL_RECV ASPEED_MBOX_BMC_CTRL"
  using assms
  by (simp add: read_locked_ok outb_ctrl read_state_def emit_def inb_log_def outb_log_def
      cong: if_cong)

lemma read_locked_fault_trace:
  assumes "count + ppos \<le> ASPEED_MBOX_NUM_REGS" "n < count" "\<forall>k<n. mapped u k" "\<not> mapped u n"
  shows "trace (snd (snd (read_locked u count ppos s))) =
           trace s @ [MutexLock] @ map (\<lambda>j. RegRead (data_addr (base s) j)) [ppos..<ppos + Suc n]
             @ [MutexUnlock]"
  using assms
  by (simp add: read_locked_fault[where n = n] read_state_def emit_def)


lemma read_buf_bytes:
  "bytes (read_buf u s i 0 n) k =
     (if k < n then inb_value s (ticks s + k) (data_addr (base s) (i + k)) else bytes u k)"
  by (simp add: read_buf_def)

subsection \<open>The wait\<close>

lemma inb_ctrl_proj:
  "base (snd (aspeed_mbox_inb s ASPEED_MBOX_BMC_CTRL)) = base s"
  "regs (snd (aspeed_mbox_inb s ASPEED_MBOX_BMC_CTRL)) = regs s"
  "rd_rc (snd (aspeed_mbox_inb s ASPEED_MBOX_BMC_CTRL)) = rd_rc s"
  "wr_rc (snd (aspeed_mbox_inb s ASPEED_MBOX_BMC_CTRL)) = wr_rc s"
  "open_count (snd (aspeed_mbox_inb s ASPEED_MBOX_BMC_CTRL)) = open_count s"
  "ticks (snd (aspeed_mbox_inb s ASPEED_MBOX_BMC_CTRL)) = Suc (ticks s)"
  "trace (snd (aspeed_mbox_inb s ASPEED_MBOX_BMC_CTRL)) = trace s @ [RegRead (ctrl_addr (base s))]"
  by (simp_all add: inb_ctrl)

lemma wait_loop_base: "wait_loop sigp ws s = Some (r, s1) \<Longrightarrow> base s1 = base s"
proof (induction sigp ws s rule: wait_loop.induct)
  case (1 sigp ws s)
  obtain c s0 where inb: "aspeed_mbox_inb s ASPEED_MBOX_BMC_CTRL = (c, s0)"
    by (cases "aspeed_mbox_inb s ASPEED_MBOX_BMC_CTRL")
  have b0: "base s0 = base s" using inb_ctrl_proj(1)[of s] inb by simp
  show ?case
  proof (cases "c AND ASPEED_MBOX_CTRL_RECV \<noteq> 0 \<or> sigp")
    case True
    then show ?thesis using "1.prems" inb b0 by (auto split: if_splits)
  next
    case False
    show ?thesis
    proof (cases ws)
      case Nil
      then show ?thesis using "1.prems" inb False by simp
    next
      case (Cons w ws')
      obtain f sg where w: "w = Wakeup f sg" by (cases w)
      have "wait_loop sg ws' (emit Schedule s0\<lparr>regs := f (regs s0)\<rparr>) = Some (r, s1)"
        using "1.prems" inb False Cons w by simp
      then have "base s1 = base (emit Schedule s0\<lparr>regs := f (regs s0)\<rparr>)"
        using "1.IH"[OF inb[symmetric] _ _ Cons w] False by simp
      then show ?thesis using b0 by (simp add: emit_simps)
    qed
  qed
qed

lemma wait_event_base:
  assumes "wait_event_interruptible sigp ws s = Some (r, s1)"
  shows "base s1 = base s"
proof -
  obtain c s0 where inb: "aspeed_mbox_inb s ASPEED_MBOX_BMC_CTRL = (c, s0)"
    by (cases "aspeed_mbox_inb s ASPEED_MBOX_BMC_CTRL")
  have b0: "base s0 = base s" using inb_ctrl_proj(1)[of s] inb by simp
  show ?thesis
  proof (cases "c AND ASPEED_MBOX_CTRL_RECV \<noteq> 0")
    case True
    then show ?thesis using assms inb b0 by (simp add: wait_event_interruptible_def)
  next
    case False
    then have "wait_loop sigp ws s0 = Some (r, s1)"
      using assms inb by (simp add: wait_event_interruptible_def del: wait_loop.simps)
    then show ?thesis using wait_loop_base b0 by simp
  qed
qed

lemma wait_event_recv_at_entry:
  "fst (aspeed_mbox_inb s ASPEED_MBOX_BMC_CTRL) AND ASPEED_MBOX_CTRL_RECV \<noteq> 0 \<Longrightarrow>
   wait_event_interruptible sigp ws s = Some (False, snd (aspeed_mbox_inb s ASPEED_MBOX_BMC_CTRL))"
  by (cases "aspeed_mbox_inb s ASPEED_MBOX_BMC_CTRL")
     (simp add: wait_event_interruptible_def del: wait_loop.simps)

subsection \<open>The sample inputs, evaluated\<close>

lemma errno_distinct:
  "- EFAULT \<noteq> - EAGAIN" "- EFAULT \<noteq> - EINVAL" "- EFAULT < 0" "- EINVAL < 0"
  by (simp_all add: EFAULT_def EAGAIN_def EINVAL_def)

lemma demo_eval:
  "base s_idle = 0x180" "ticks s_idle = 0" "rd_rc s_idle t a = 0" "wr_rc s_idle t a = 0"
  "regs s_idle a = 0" "open_count s_idle = 1" "trace s_idle = []" "klog s_idle = []"
  "base s_pending = 0x180" "ticks s_pending = 0" "rd_rc s_pending t a = 0" "wr_rc s_pending t a = 0"
  "open_count s_pending = 1" "trace s_pending = []" "klog s_pending = []"
  "regs s_pending = (\<lambda>a. 0)(0x188 := 0x11, 0x18c := 0x22, 0x190 := 0x33, 0x1c8 := 0x82)"
  by (simp_all add: s_idle_def s_pending_def)

lemma demo_addr:
  "ctrl_addr 0x180 = 0x1c8" "data_addr 0x180 2 = 0x188" "data_addr 0x180 3 = 0x18c"
  "data_addr 0x180 4 = 0x190" "data_addr 0x180 0 = 0x180" "data_addr 0x180 1 = 0x184"
  by (simp_all add: ctrl_addr_eq data_addr_def ASPEED_MBOX_DATA_0_def)

lemma demo_buf:
  "access_ok u_ok n = (n \<le> 16)" "mapped u_ok k" "bytes u_ok k = 0"
  "access_ok u_noaccess n = (n = 0)"
  "access_ok (u_fault m) n = (n \<le> 16)" "mapped (u_fault m) k = (k < m)" "bytes (u_fault m) k = 0"
  by (simp_all add: access_ok_def u_ok_def u_noaccess_def u_fault_def)

text \<open>
  A blocking wait on the idle mailbox: woken after the other side has sent a message, it
  returns 0 after three reads of the control register and one sleep; never woken, it does
  not return; with a signal pending it returns non-zero.
\<close>

lemma sample_blocking_wait:
  "wait_event_interruptible False [Wakeup host_sends False] s_idle =
     Some (False, s_idle\<lparr>regs := host_sends (\<lambda>a. 0), ticks := 3,
                          trace := [RegRead 0x1c8, RegRead 0x1c8, Schedule, RegRead 0x1c8]\<rparr>)"
  "wait_event_interruptible False [] s_idle = None"
  "map_option fst (wait_event_interruptible True [] s_idle) = Some True"
  by (simp_all add: wait_event_interruptible_def inb_ctrl inb_value_def inb_log_def emit_def host_sends_def
      s_idle_def ctrl_addr_eq ASPEED_MBOX_CTRL_RECV_def)

subsection \<open>The RECV test\<close>

lemma inb_ctrl_fst:
  "fst (aspeed_mbox_inb s ASPEED_MBOX_BMC_CTRL) = inb_value s (ticks s) (ctrl_addr (base s))"
  by (simp add: inb_ctrl)

lemma bit_ucast_7: "bit (ucast (w::u32) :: u8) 7 = bit w 7"
  by (simp add: bit_ucast_iff)

lemma bits_after_mask:
  "bit ((0x02::u32) OR (x AND 0x80)) 7 = bit x 7" "bit ((0x02::u32) OR (x AND 0x80)) 1"
  "bit ((0x02::u32) OR (x AND 0x80)) (Suc 0)"
proof -
  have b2: "bit (0x02::u32) n = (n = 1)" for n
    using bit_exp_iff[where ?'a = u32, of 1 n] by auto
  show "bit ((0x02::u32) OR (x AND 0x80)) 7 = bit x 7" "bit ((0x02::u32) OR (x AND 0x80)) 1"
    "bit ((0x02::u32) OR (x AND 0x80)) (Suc 0)"
    by (simp_all add: bit_or_iff bit_and_iff bit_80 b2)
qed

subsection \<open>write from the lock to the return\<close>

lemma write_regs_emit: "write_regs (emit e s) u i p n = write_regs s u i p n"
  by (induction n) (simp_all add: emit_simps)

lemma write_ok:
  assumes "count + ppos \<le> ASPEED_MBOX_NUM_REGS" "access_ok u count" "\<forall>k<count. mapped u k"
  shows "aspeed_mbox_write u count ppos s =
     (int count,
      emit MutexUnlock
        (aspeed_mbox_outb (write_state (emit MutexLock s) u ppos 0 count)
           ASPEED_MBOX_CTRL_SEND ASPEED_MBOX_BMC_CTRL))"
  using assms by (simp add: aspeed_mbox_write_def write_loop_ok)

lemma write_fault:
  assumes "count + ppos \<le> ASPEED_MBOX_NUM_REGS" "access_ok u count"
    "n < count" "\<forall>k<n. mapped u k" "\<not> mapped u n"
  shows "aspeed_mbox_write u count ppos s =
     (- EFAULT, emit MutexUnlock (write_state (emit MutexLock s) u ppos 0 n))"
  using assms by (simp add: aspeed_mbox_write_def write_loop_fault[where n = n])

lemma write_ok_trace:
  assumes "count + ppos \<le> ASPEED_MBOX_NUM_REGS" "access_ok u count" "\<forall>k<count. mapped u k"
  shows "trace (snd (aspeed_mbox_write u count ppos s)) =
           trace s @ [MutexLock]
             @ map (\<lambda>j. RegWrite (data_addr (base s) j) (ucast (bytes u (j - ppos)))) [ppos..<ppos + count]
             @ [RegWrite (ctrl_addr (base s)) 0x01, MutexUnlock]"
  using assms
  by (simp add: write_ok outb_ctrl write_state_def emit_def ucast_ctrl_bits)

lemma write_ok_regs:
  assumes "count + ppos \<le> ASPEED_MBOX_NUM_REGS" "access_ok u count" "\<forall>k<count. mapped u k"
  shows "regs (snd (aspeed_mbox_write u count ppos s)) =
           (if wr_rc s (ticks s + count) (ctrl_addr (base s)) = 0
            then (write_regs s u ppos 0 count)
                   (ctrl_addr (base s) := 0x01 OR (write_regs s u ppos 0 count (ctrl_addr (base s)) AND 0x80))
            else write_regs s u ppos 0 count)"
  using assms
  by (simp add: write_ok outb_ctrl write_state_def emit_simps ucast_ctrl_bits dev_write_send
      write_regs_emit)

lemma write_ok_klog:
  assumes "count + ppos \<le> ASPEED_MBOX_NUM_REGS" "access_ok u count" "\<forall>k<count. mapped u k"
  shows "klog (snd (aspeed_mbox_write u count ppos s)) =
           klog s @ concat (map (\<lambda>j. outb_log s (ticks s + (j - ppos)) (data_addr (base s) j)
                                        (bytes u (j - ppos)) (ASPEED_MBOX_DATA_0 + j * 4))
                              [ppos..<ppos + count])
             @ outb_log s (ticks s + count) (ctrl_addr (base s)) ASPEED_MBOX_CTRL_SEND ASPEED_MBOX_BMC_CTRL"
  using assms
  by (simp add: write_ok outb_ctrl write_state_def emit_def outb_log_def cong: if_cong)

lemma write_ok_data:
  assumes "count + ppos \<le> ASPEED_MBOX_NUM_REGS" "access_ok u count" "\<forall>k<count. mapped u k"
    "ppos \<le> j" "j < ppos + count"
  shows "regs (snd (aspeed_mbox_write u count ppos s)) (data_addr (base s) j) =
           (if wr_rc s (ticks s + (j - ppos)) (data_addr (base s) j) = 0
            then ucast (bytes u (j - ppos)) else regs s (data_addr (base s) j))"
proof -
  have j16: "j < 16" and b: "ppos + count \<le> 16"
    using assms by (simp_all add: ASPEED_MBOX_NUM_REGS_def)
  have ne: "data_addr (base s) j \<noteq> ctrl_addr (base s)"
    using j16 by (rule data_addr_ne_ctrl)
  have "regs (snd (aspeed_mbox_write u count ppos s)) (data_addr (base s) j) =
          write_regs s u ppos 0 count (data_addr (base s) j)"
    using ne by (simp add: write_ok_regs[OF assms(1,2,3)])
  also have "\<dots> = (if wr_rc s (ticks s + (j - ppos)) (data_addr (base s) j) = 0
            then ucast (bytes u (0 + (j - ppos))) else regs s (data_addr (base s) j))"
    using b assms(4,5) by (intro write_regs_data) simp_all
  finally show ?thesis by simp
qed

subsection \<open>From the call of read to the lock\<close>

text \<open>
  With a buffer and a range that pass the two checks, read reaches the lock in state
  \<open>s1\<close> when the RECV test at entry succeeds (non-blocking or not), or when the blocking
  wait returns 0.
\<close>

lemma read_reaches_lock:
  assumes "count + ppos \<le> ASPEED_MBOX_NUM_REGS" "access_ok u count"
    and "fst (aspeed_mbox_inb s ASPEED_MBOX_BMC_CTRL) AND ASPEED_MBOX_CTRL_RECV \<noteq> 0
          \<and> s1 = snd (aspeed_mbox_inb s ASPEED_MBOX_BMC_CTRL)
        \<or> \<not> nonblock \<and> wait_event_interruptible sigp ws s = Some (False, s1)"
  shows "aspeed_mbox_read nonblock sigp ws u count ppos s = Some (read_locked u count ppos s1)"
proof (cases nonblock)
  case True
  then have "fst (aspeed_mbox_inb s ASPEED_MBOX_BMC_CTRL) AND ASPEED_MBOX_CTRL_RECV \<noteq> 0"
    "s1 = snd (aspeed_mbox_inb s ASPEED_MBOX_BMC_CTRL)" using assms(3) by auto
  then show ?thesis using assms(1,2) True
    by (cases "aspeed_mbox_inb s ASPEED_MBOX_BMC_CTRL") (simp add: aspeed_mbox_read_def)
next
  case False
  have "wait_event_interruptible sigp ws s = Some (False, s1)"
    using assms(3) wait_event_recv_at_entry[of s sigp ws] by auto
  then show ?thesis using assms(1,2) False by (simp add: aspeed_mbox_read_def)
qed

lemma sample_pending_gate:
  "fst (aspeed_mbox_inb s_pending ASPEED_MBOX_BMC_CTRL) AND ASPEED_MBOX_CTRL_RECV \<noteq> 0"
  "base (snd (aspeed_mbox_inb s_pending ASPEED_MBOX_BMC_CTRL)) = 0x180"
  "ticks (snd (aspeed_mbox_inb s_pending ASPEED_MBOX_BMC_CTRL)) = 1"
  "rd_rc (snd (aspeed_mbox_inb s_pending ASPEED_MBOX_BMC_CTRL)) t a = 0"
  "wr_rc (snd (aspeed_mbox_inb s_pending ASPEED_MBOX_BMC_CTRL)) t a = 0"
  "regs (snd (aspeed_mbox_inb s_pending ASPEED_MBOX_BMC_CTRL)) =
     (\<lambda>a. 0)(0x188 := 0x11, 0x18c := 0x22, 0x190 := 0x33, 0x1c8 := 0x82)"
  "trace (snd (aspeed_mbox_inb s_pending ASPEED_MBOX_BMC_CTRL)) = [RegRead 0x1c8]"
  by (simp_all add: inb_ctrl inb_value_def demo_eval demo_addr ASPEED_MBOX_CTRL_RECV_def)


subsection \<open>Bus failures\<close>

lemma read_locked_result_any_bus:
  assumes "count + ppos \<le> ASPEED_MBOX_NUM_REGS"
  shows "fst (read_locked u count ppos (s\<lparr>rd_rc := f\<rparr>)) = fst (read_locked u count ppos s)"
proof -
  consider "\<forall>k<count. mapped u k" | n where "n < count" "\<forall>k<n. mapped u k" "\<not> mapped u n"
    using first_unmapped[of count u] by blast
  then show ?thesis
  proof cases
    case 1
    then show ?thesis using assms by (simp add: read_locked_ok)
  next
    case 2
    then show ?thesis using assms by (simp add: read_locked_fault[where n = n])
  qed
qed

lemma read_locked_logs_failure:
  assumes "count + ppos \<le> ASPEED_MBOX_NUM_REGS" "\<forall>k<count. mapped u k" "k < count"
    "rd_rc s (ticks s + k) (data_addr (base s) (ppos + k)) \<noteq> 0"
  shows "ReadFailed (rd_rc s (ticks s + k) (data_addr (base s) (ppos + k)))
           (ASPEED_MBOX_DATA_0 + (ppos + k) * 4) \<in> set (klog (snd (snd (read_locked u count ppos s))))"
proof -
  have "ReadFailed (rd_rc s (ticks s + k) (data_addr (base s) (ppos + k)))
           (ASPEED_MBOX_DATA_0 + (ppos + k) * 4)
        \<in> set (inb_log s (ticks s + ((ppos + k) - ppos)) (data_addr (base s) (ppos + k))
                  (ASPEED_MBOX_DATA_0 + (ppos + k) * 4))"
    using assms(4) by (simp add: inb_log_def)
  moreover have "ppos + k \<in> set [ppos..<ppos + count]" using assms(3) by simp
  ultimately have "ReadFailed (rd_rc s (ticks s + k) (data_addr (base s) (ppos + k)))
           (ASPEED_MBOX_DATA_0 + (ppos + k) * 4)
        \<in> set (concat (map (\<lambda>j. inb_log s (ticks s + (j - ppos)) (data_addr (base s) j)
                                   (ASPEED_MBOX_DATA_0 + j * 4)) [ppos..<ppos + count]))"
    unfolding set_concat set_map by blast
  then show ?thesis
    unfolding read_locked_ok_klog[OF assms(1,2)] by simp
qed

lemma write_logs_failure:
  assumes "count + ppos \<le> ASPEED_MBOX_NUM_REGS" "access_ok u count" "\<forall>k<count. mapped u k"
    "k < count" "wr_rc s (ticks s + k) (data_addr (base s) (ppos + k)) \<noteq> 0"
  shows "WriteFailed (wr_rc s (ticks s + k) (data_addr (base s) (ppos + k))) (bytes u k)
           (ASPEED_MBOX_DATA_0 + (ppos + k) * 4) \<in> set (klog (snd (aspeed_mbox_write u count ppos s)))"
proof -
  have "WriteFailed (wr_rc s (ticks s + k) (data_addr (base s) (ppos + k))) (bytes u k)
           (ASPEED_MBOX_DATA_0 + (ppos + k) * 4)
        \<in> set (outb_log s (ticks s + ((ppos + k) - ppos)) (data_addr (base s) (ppos + k))
                  (bytes u ((ppos + k) - ppos)) (ASPEED_MBOX_DATA_0 + (ppos + k) * 4))"
    using assms(5) by (simp add: outb_log_def)
  moreover have "ppos + k \<in> set [ppos..<ppos + count]" using assms(4) by simp
  ultimately have "WriteFailed (wr_rc s (ticks s + k) (data_addr (base s) (ppos + k))) (bytes u k)
           (ASPEED_MBOX_DATA_0 + (ppos + k) * 4)
        \<in> set (concat (map (\<lambda>j. outb_log s (ticks s + (j - ppos)) (data_addr (base s) j)
                                   (bytes u (j - ppos)) (ASPEED_MBOX_DATA_0 + j * 4))
                           [ppos..<ppos + count]))"
    unfolding set_concat set_map by blast
  then show ?thesis
    unfolding write_ok_klog[OF assms(1,2,3)] by simp
qed

subsection \<open>A failing read of the control register\<close>

lemma read_buf_same:
  assumes "ppos + n \<le> 16" "base s' = base s" "ticks s' = ticks s"
    "\<forall>t\<ge>ticks s. \<forall>j<16. rd_rc s' t (data_addr (base s) j) = rd_rc s t (data_addr (base s) j)"
    "\<forall>j<16. regs s' (data_addr (base s) j) = regs s (data_addr (base s) j)"
  shows "read_buf u s' ppos 0 n = read_buf u s ppos 0 n"
proof -
  have "inb_value s' (ticks s' + k) (data_addr (base s') (ppos + k))
          = inb_value s (ticks s + k) (data_addr (base s) (ppos + k))" if "k < n" for k
  proof -
    have j: "ppos + k < 16" using that assms(1) by simp
    have "rd_rc s' (ticks s + k) (data_addr (base s) (ppos + k))
            = rd_rc s (ticks s + k) (data_addr (base s) (ppos + k))"
      using assms(4) j by simp
    moreover have "regs s' (data_addr (base s) (ppos + k)) = regs s (data_addr (base s) (ppos + k))"
      using assms(5) j by simp
    ultimately show ?thesis by (simp add: inb_value_def assms(2,3))
  qed
  then have "(\<lambda>k. if 0 \<le> k \<and> k < 0 + n
                   then inb_value s' (ticks s' + (k - 0)) (data_addr (base s') (ppos + (k - 0)))
                   else bytes u k)
           = (\<lambda>k. if 0 \<le> k \<and> k < 0 + n
                   then inb_value s (ticks s + (k - 0)) (data_addr (base s) (ppos + (k - 0)))
                   else bytes u k)"
    by (auto simp add: fun_eq_iff)
  then show ?thesis unfolding read_buf_def by simp
qed

lemma read_locked_same:
  assumes "count + ppos \<le> ASPEED_MBOX_NUM_REGS" "base s' = base s" "ticks s' = ticks s"
    "\<forall>t\<ge>ticks s. \<forall>j<16. rd_rc s' t (data_addr (base s) j) = rd_rc s t (data_addr (base s) j)"
    "\<forall>j<16. regs s' (data_addr (base s) j) = regs s (data_addr (base s) j)"
  shows "fst (read_locked u count ppos s') = fst (read_locked u count ppos s) \<and>
         fst (snd (read_locked u count ppos s')) = fst (snd (read_locked u count ppos s))"
proof -
  have b: "ppos + count \<le> 16" using assms(1) by (simp add: ASPEED_MBOX_NUM_REGS_def)
  consider "\<forall>k<count. mapped u k" | n where "n < count" "\<forall>k<n. mapped u k" "\<not> mapped u n"
    using first_unmapped[of count u] by blast
  then show ?thesis
  proof cases
    case 1
    have "read_buf u s' ppos 0 count = read_buf u s ppos 0 count"
      by (rule read_buf_same[OF b assms(2,3,4,5)])
    then show ?thesis using 1 assms(1) by (simp add: read_locked_ok)
  next
    case 2
    have "ppos + n \<le> 16" using b 2(1) by simp
    then have "read_buf u s' ppos 0 n = read_buf u s ppos 0 n"
      by (rule read_buf_same[OF _ assms(2,3,4,5)])
    then show ?thesis using 2 assms(1) by (simp add: read_locked_fault[where n = n])
  qed
qed

lemma read_locked_not_eagain:
  assumes "count + ppos \<le> ASPEED_MBOX_NUM_REGS"
  shows "fst (read_locked u count ppos s) \<noteq> - EAGAIN"
proof -
  consider "\<forall>k<count. mapped u k" | n where "n < count" "\<forall>k<n. mapped u k" "\<not> mapped u n"
    using first_unmapped[of count u] by blast
  then show ?thesis
  proof cases
    case 1
    then show ?thesis using assms by (simp add: read_locked_ok EAGAIN_def)
  next
    case 2
    then show ?thesis using assms by (simp add: read_locked_fault[where n = n] EAGAIN_def EFAULT_def)
  qed
qed

lemma twin_proj:
  "base (pending_twin s) = base s" "ticks (pending_twin s) = ticks s"
  "rd_rc (pending_twin s) (ticks s) (ctrl_addr (base s)) = 0"
  "regs (pending_twin s) (ctrl_addr (base s)) = regs s (ctrl_addr (base s)) OR 0x80"
  "t \<noteq> ticks s \<Longrightarrow> rd_rc (pending_twin s) t = rd_rc s t"
  "a \<noteq> ctrl_addr (base s) \<Longrightarrow> regs (pending_twin s) a = regs s a"
  by (simp_all add: pending_twin_def)

lemma twin_observes_recv:
  "fst (aspeed_mbox_inb (pending_twin s) ASPEED_MBOX_BMC_CTRL) AND ASPEED_MBOX_CTRL_RECV \<noteq> 0"
proof -
  have "bit (regs s (ctrl_addr (base s)) OR 0x80) 7" by (simp add: bit_or_iff bit_80)
  then show ?thesis
    by (simp add: inb_ctrl_fst inb_value_def twin_proj recv_test bit_ucast_7)
qed

lemma failed_ctrl_read:
  assumes "rd_rc s (ticks s) (ctrl_addr (base s)) \<noteq> 0"
  shows "fst (aspeed_mbox_inb s ASPEED_MBOX_BMC_CTRL) = 0xff"
    "fst (aspeed_mbox_inb s ASPEED_MBOX_BMC_CTRL) AND ASPEED_MBOX_CTRL_RECV \<noteq> 0"
  using assms by (simp_all add: inb_ctrl_fst inb_value_def recv_sentinel)

lemma poll_result:
  "fst (aspeed_mbox_poll s) =
     (if fst (aspeed_mbox_inb s ASPEED_MBOX_BMC_CTRL) AND ASPEED_MBOX_CTRL_RECV \<noteq> 0 then POLLIN else 0)"
  by (simp add: aspeed_mbox_poll_def inb_ctrl emit_simps inb_value_def)

lemma irq_result:
  "fst (aspeed_mbox_irq s) =
     (if fst (aspeed_mbox_inb s ASPEED_MBOX_BMC_CTRL) AND ASPEED_MBOX_CTRL_RECV \<noteq> 0
      then IRQ_HANDLED else IRQ_NONE)"
  by (cases "aspeed_mbox_inb s ASPEED_MBOX_BMC_CTRL") (simp add: aspeed_mbox_irq_def)

lemma read_twin_visible:
  assumes "rd_rc s (ticks s) (ctrl_addr (base s)) \<noteq> 0"
  shows "visible (aspeed_mbox_read True sigp ws u count ppos (pending_twin s)) =
         visible (aspeed_mbox_read True sigp ws u count ppos s)"
proof (cases "access_ok u count \<and> count + ppos \<le> ASPEED_MBOX_NUM_REGS")
  case False
  then show ?thesis by (auto simp add: aspeed_mbox_read_def visible_def)
next
  case True
  then have a: "access_ok u count" and b: "count + ppos \<le> ASPEED_MBOX_NUM_REGS" by simp_all
  let ?s1 = "snd (aspeed_mbox_inb s ASPEED_MBOX_BMC_CTRL)"
  let ?t1 = "snd (aspeed_mbox_inb (pending_twin s) ASPEED_MBOX_BMC_CTRL)"
  have r: "aspeed_mbox_read True sigp ws u count ppos s = Some (read_locked u count ppos ?s1)"
    by (rule read_reaches_lock[OF b a]) (simp add: failed_ctrl_read(2)[OF assms])
  have rt: "aspeed_mbox_read True sigp ws u count ppos (pending_twin s)
              = Some (read_locked u count ppos ?t1)"
    by (rule read_reaches_lock[OF b a]) (simp add: twin_observes_recv)
  have "fst (read_locked u count ppos ?t1) = fst (read_locked u count ppos ?s1) \<and>
        fst (snd (read_locked u count ppos ?t1)) = fst (snd (read_locked u count ppos ?s1))"
  proof (rule read_locked_same[OF b])
    show "base ?t1 = base ?s1" by (simp add: inb_ctrl_proj twin_proj)
    show "ticks ?t1 = ticks ?s1" by (simp add: inb_ctrl_proj twin_proj)
    show "\<forall>t\<ge>ticks ?s1. \<forall>j<16. rd_rc ?t1 t (data_addr (base ?s1) j) = rd_rc ?s1 t (data_addr (base ?s1) j)"
      by (simp add: inb_ctrl_proj twin_proj)
    show "\<forall>j<16. regs ?t1 (data_addr (base ?s1) j) = regs ?s1 (data_addr (base ?s1) j)"
      by (simp add: inb_ctrl_proj twin_proj data_addr_ne_ctrl)
  qed
  then show ?thesis
    unfolding r rt visible_def by (simp add: split_beta)
qed

subsection \<open>What the operations do to RECV and MASK\<close>











subsection \<open>The sample mailbox after the handler and after a faulting read\<close>




section \<open>The claims\<close>

subsection \<open>C1: read, from the range check to the acknowledge\<close>

text \<open>
  C1 as stated fails, in two ways. A non-blocking read of one byte at offset 0, with RECV
  clear, whose buffer does not pass \<open>access_ok\<close> returns \<open>-EFAULT\<close> (Fault), not
  \<open>-EAGAIN\<close> (WouldBlock): the access check is the first statement of
  \<open>aspeed_mbox_read\<close>. And a non-blocking read of three bytes at offset 2, with RECV
  observed set, whose buffer faults at its second byte returns \<open>-EFAULT\<close>, not the count 3.
\<close>

theorem C1_read_counterexample:
  "1 + 0 \<le> ASPEED_MBOX_NUM_REGS \<and>
   fst (aspeed_mbox_inb s_idle ASPEED_MBOX_BMC_CTRL) AND ASPEED_MBOX_CTRL_RECV = 0 \<and>
   aspeed_mbox_read True False [] u_noaccess 1 0 s_idle = Some (- EFAULT, u_noaccess, s_idle) \<and>
   - EFAULT \<noteq> - EAGAIN \<and>
   3 + 2 \<le> ASPEED_MBOX_NUM_REGS \<and> access_ok (u_fault 1) 3 \<and>
   fst (aspeed_mbox_inb s_pending ASPEED_MBOX_BMC_CTRL) AND ASPEED_MBOX_CTRL_RECV \<noteq> 0 \<and>
   fst (the (aspeed_mbox_read True False [] (u_fault 1) 3 2 s_pending)) = - EFAULT \<and>
   - EFAULT \<noteq> 3"
proof -
  define s1 where "s1 = snd (aspeed_mbox_inb s_pending ASPEED_MBOX_BMC_CTRL)"
  have b: "3 + 2 \<le> ASPEED_MBOX_NUM_REGS" by (simp add: ASPEED_MBOX_NUM_REGS_def)
  have a: "access_ok (u_fault 1) 3" by (simp add: demo_buf)
  have r: "aspeed_mbox_read True False [] (u_fault 1) 3 2 s_pending
              = Some (read_locked (u_fault 1) 3 2 s1)"
    by (rule read_reaches_lock[OF b a]) (simp add: sample_pending_gate s1_def)
  have l: "read_locked (u_fault 1) 3 2 s1 =
     (- EFAULT, read_buf (u_fault 1) s1 2 0 1, emit MutexUnlock (read_state (emit MutexLock s1) 2 (Suc 1)))"
    by (rule read_locked_fault[OF b]) (simp_all add: demo_buf)
  have 1: "fst (the (aspeed_mbox_read True False [] (u_fault 1) 3 2 s_pending)) = - EFAULT"
    unfolding r l by simp
  have 2: "aspeed_mbox_read True False [] u_noaccess 1 0 s_idle = Some (- EFAULT, u_noaccess, s_idle)"
    by (simp add: aspeed_mbox_read_def demo_buf)
  have 3: "fst (aspeed_mbox_inb s_idle ASPEED_MBOX_BMC_CTRL) AND ASPEED_MBOX_CTRL_RECV = 0"
    by (simp add: inb_ctrl inb_value_def demo_eval)
  show ?thesis
    using 1 2 3 a b sample_pending_gate(1)
    by (simp add: ASPEED_MBOX_NUM_REGS_def EFAULT_def EAGAIN_def)
qed

text \<open>
  C1, amended. For every read call with \<open>count + *ppos \<le> 16\<close>: when the buffer does not
  pass \<open>access_ok\<close>, read returns \<open>-EFAULT\<close> (Fault) whatever the flag and the RECV bit
  are, with the buffer and the mailbox exactly as before (no bus transaction). When the
  buffer passes \<open>access_ok\<close>: if the call is non-blocking and the byte read from the BMC
  control register has RECV clear, read returns \<open>-EAGAIN\<close> (WouldBlock), the caller's
  buffer and the registers are as before and the control-register read is the only bus
  transaction. Once RECV is observed set (by the test at entry, or by the blocking wait
  returning 0 in state \<open>s1\<close>) and the buffer accepts every byte, read returns \<open>count\<close>;
  byte \<open>k\<close> of the buffer is what \<open>aspeed_mbox_inb\<close> read from data register
  \<open>*ppos + k\<close>, the bytes from \<open>count\<close> on are untouched; under the lock the driver
  reads data registers \<open>*ppos\<close> to \<open>*ppos + count - 1\<close> in order, then makes one write,
  of the RECV bit value \<open>0x80\<close>, to the control register, and unlocks; when that bus
  write succeeds the control register has RECV and MASK clear afterwards and no other
  register has changed. Once RECV is observed set and byte \<open>n < count\<close> is the first the
  buffer does not accept, read returns \<open>-EFAULT\<close> (Fault), not a count.
\<close>

theorem C1_read:
  assumes "count + ppos \<le> ASPEED_MBOX_NUM_REGS"
  shows
    "(\<not> access_ok u count \<longrightarrow>
        aspeed_mbox_read nonblock sigp ws u count ppos s = Some (- EFAULT, u, s))
     \<and>
     (access_ok u count \<and>
      fst (aspeed_mbox_inb s ASPEED_MBOX_BMC_CTRL) AND ASPEED_MBOX_CTRL_RECV = 0 \<longrightarrow>
        (\<exists>s'. aspeed_mbox_read True sigp ws u count ppos s = Some (- EAGAIN, u, s') \<and>
              trace s' = trace s @ [RegRead (ctrl_addr (base s))] \<and> regs s' = regs s))
     \<and>
     (access_ok u count \<and>
      (fst (aspeed_mbox_inb s ASPEED_MBOX_BMC_CTRL) AND ASPEED_MBOX_CTRL_RECV \<noteq> 0
          \<and> s1 = snd (aspeed_mbox_inb s ASPEED_MBOX_BMC_CTRL)
        \<or> \<not> nonblock \<and> wait_event_interruptible sigp ws s = Some (False, s1))
       \<and> (\<forall>k<count. mapped u k) \<longrightarrow>
        (\<exists>u' s'. aspeed_mbox_read nonblock sigp ws u count ppos s = Some (int count, u', s') \<and>
           (\<forall>k<count. bytes u' k = inb_value s1 (ticks s1 + k) (data_addr (base s1) (ppos + k))) \<and>
           (\<forall>k. count \<le> k \<longrightarrow> bytes u' k = bytes u k) \<and>
           trace s' = trace s1 @ [MutexLock]
                        @ map (\<lambda>j. RegRead (data_addr (base s1) j)) [ppos..<ppos + count]
                        @ [RegWrite (ctrl_addr (base s1)) 0x80, MutexUnlock] \<and>
           (wr_rc s1 (ticks s1 + count) (ctrl_addr (base s1)) = 0 \<longrightarrow>
              regs s' (ctrl_addr (base s1)) = 0 \<and>
              (\<forall>a. a \<noteq> ctrl_addr (base s1) \<longrightarrow> regs s' a = regs s1 a))))
     \<and>
     (access_ok u count \<and>
      (fst (aspeed_mbox_inb s ASPEED_MBOX_BMC_CTRL) AND ASPEED_MBOX_CTRL_RECV \<noteq> 0
          \<and> s1 = snd (aspeed_mbox_inb s ASPEED_MBOX_BMC_CTRL)
        \<or> \<not> nonblock \<and> wait_event_interruptible sigp ws s = Some (False, s1))
       \<and> n < count \<and> (\<forall>k<n. mapped u k) \<and> \<not> mapped u n \<longrightarrow>
        (\<exists>u' s'. aspeed_mbox_read nonblock sigp ws u count ppos s = Some (- EFAULT, u', s')))"
proof (intro conjI impI)
  assume "\<not> access_ok u count"
  then show "aspeed_mbox_read nonblock sigp ws u count ppos s = Some (- EFAULT, u, s)"
    by (simp add: aspeed_mbox_read_def)
next
  assume h: "access_ok u count \<and>
      fst (aspeed_mbox_inb s ASPEED_MBOX_BMC_CTRL) AND ASPEED_MBOX_CTRL_RECV = 0"
  obtain c s0 where inb: "aspeed_mbox_inb s ASPEED_MBOX_BMC_CTRL = (c, s0)"
    by (cases "aspeed_mbox_inb s ASPEED_MBOX_BMC_CTRL")
  have "aspeed_mbox_read True sigp ws u count ppos s = Some (- EAGAIN, u, s0)"
    using assms h inb by (simp add: aspeed_mbox_read_def)
  moreover have "trace s0 = trace s @ [RegRead (ctrl_addr (base s))]" "regs s0 = regs s"
    using inb_ctrl_proj(7)[of s] inb_ctrl_proj(2)[of s] inb by simp_all
  ultimately show "\<exists>s'. aspeed_mbox_read True sigp ws u count ppos s = Some (- EAGAIN, u, s') \<and>
              trace s' = trace s @ [RegRead (ctrl_addr (base s))] \<and> regs s' = regs s"
    by simp
next
  assume h: "access_ok u count \<and>
      (fst (aspeed_mbox_inb s ASPEED_MBOX_BMC_CTRL) AND ASPEED_MBOX_CTRL_RECV \<noteq> 0
          \<and> s1 = snd (aspeed_mbox_inb s ASPEED_MBOX_BMC_CTRL)
        \<or> \<not> nonblock \<and> wait_event_interruptible sigp ws s = Some (False, s1))
       \<and> (\<forall>k<count. mapped u k)"
  then have m: "\<forall>k<count. mapped u k" and a: "access_ok u count"
    and g: "fst (aspeed_mbox_inb s ASPEED_MBOX_BMC_CTRL) AND ASPEED_MBOX_CTRL_RECV \<noteq> 0
          \<and> s1 = snd (aspeed_mbox_inb s ASPEED_MBOX_BMC_CTRL)
        \<or> \<not> nonblock \<and> wait_event_interruptible sigp ws s = Some (False, s1)"
    by blast+
  have rd: "aspeed_mbox_read nonblock sigp ws u count ppos s = Some (read_locked u count ppos s1)"
    by (rule read_reaches_lock[OF assms a g])
  let ?r = "read_locked u count ppos s1"
  have "?r = (int count, fst (snd ?r), snd (snd ?r))"
    using assms m by (simp add: read_locked_ok)
  moreover have "\<forall>k<count. bytes (fst (snd ?r)) k = inb_value s1 (ticks s1 + k) (data_addr (base s1) (ppos + k))"
    using assms m by (simp add: read_locked_ok read_buf_bytes)
  moreover have "\<forall>k. count \<le> k \<longrightarrow> bytes (fst (snd ?r)) k = bytes u k"
    using assms m by (simp add: read_locked_ok read_buf_bytes)
  moreover note read_locked_ok_trace[OF assms m, of s1]
  moreover have "wr_rc s1 (ticks s1 + count) (ctrl_addr (base s1)) = 0 \<longrightarrow>
              regs (snd (snd ?r)) (ctrl_addr (base s1)) = 0 \<and>
              (\<forall>a. a \<noteq> ctrl_addr (base s1) \<longrightarrow> regs (snd (snd ?r)) a = regs s1 a)"
    by (simp add: read_locked_ok_regs[OF assms m])
  ultimately show "\<exists>u' s'. aspeed_mbox_read nonblock sigp ws u count ppos s = Some (int count, u', s') \<and>
           (\<forall>k<count. bytes u' k = inb_value s1 (ticks s1 + k) (data_addr (base s1) (ppos + k))) \<and>
           (\<forall>k. count \<le> k \<longrightarrow> bytes u' k = bytes u k) \<and>
           trace s' = trace s1 @ [MutexLock]
                        @ map (\<lambda>j. RegRead (data_addr (base s1) j)) [ppos..<ppos + count]
                        @ [RegWrite (ctrl_addr (base s1)) 0x80, MutexUnlock] \<and>
           (wr_rc s1 (ticks s1 + count) (ctrl_addr (base s1)) = 0 \<longrightarrow>
              regs s' (ctrl_addr (base s1)) = 0 \<and>
              (\<forall>a. a \<noteq> ctrl_addr (base s1) \<longrightarrow> regs s' a = regs s1 a))"
    unfolding rd
    by (intro exI[of _ "fst (snd ?r)"] exI[of _ "snd (snd ?r)"]) (simp only: simp_thms)
next
  assume h: "access_ok u count \<and>
      (fst (aspeed_mbox_inb s ASPEED_MBOX_BMC_CTRL) AND ASPEED_MBOX_CTRL_RECV \<noteq> 0
          \<and> s1 = snd (aspeed_mbox_inb s ASPEED_MBOX_BMC_CTRL)
        \<or> \<not> nonblock \<and> wait_event_interruptible sigp ws s = Some (False, s1))
       \<and> n < count \<and> (\<forall>k<n. mapped u k) \<and> \<not> mapped u n"
  then have a: "access_ok u count"
    and g: "fst (aspeed_mbox_inb s ASPEED_MBOX_BMC_CTRL) AND ASPEED_MBOX_CTRL_RECV \<noteq> 0
          \<and> s1 = snd (aspeed_mbox_inb s ASPEED_MBOX_BMC_CTRL)
        \<or> \<not> nonblock \<and> wait_event_interruptible sigp ws s = Some (False, s1)"
    and n: "n < count" "\<forall>k<n. mapped u k" "\<not> mapped u n"
    by blast+
  have rd: "aspeed_mbox_read nonblock sigp ws u count ppos s = Some (read_locked u count ppos s1)"
    by (rule read_reaches_lock[OF assms a g])
  show "\<exists>u' s'. aspeed_mbox_read nonblock sigp ws u count ppos s = Some (- EFAULT, u', s')"
    unfolding rd by (simp add: read_locked_fault[OF assms n])
qed

text \<open>
  The theorem at work: three bytes from offset 2. With a buffer outside the user range,
  Fault on the idle mailbox and on the mailbox with a message pending, and Fault from a
  blocking call that would otherwise wait for ever; with a good buffer, non-blocking, on
  the idle mailbox (WouldBlock) and on the mailbox with a message pending; blocking on the
  idle mailbox, woken after the other side has sent the message; and with a buffer that
  faults at its second byte, on the mailbox with a message pending (Fault).
\<close>

theorem C1_read_witness:
  "3 + 2 \<le> ASPEED_MBOX_NUM_REGS \<and> access_ok u_ok 3 \<and>
   fst (aspeed_mbox_inb s_pending ASPEED_MBOX_BMC_CTRL) AND ASPEED_MBOX_CTRL_RECV \<noteq> 0 \<and>
   fst (aspeed_mbox_inb s_idle ASPEED_MBOX_BMC_CTRL) AND ASPEED_MBOX_CTRL_RECV = 0 \<and>
   \<not> access_ok u_noaccess 3 \<and>
   aspeed_mbox_read True False [] u_noaccess 3 2 s_idle = Some (- EFAULT, u_noaccess, s_idle) \<and>
   aspeed_mbox_read True False [] u_noaccess 3 2 s_pending = Some (- EFAULT, u_noaccess, s_pending) \<and>
   wait_event_interruptible False [] s_idle = None \<and>
   aspeed_mbox_read False False [] u_noaccess 3 2 s_idle = Some (- EFAULT, u_noaccess, s_idle) \<and>
   fst (the (aspeed_mbox_read True False [] u_ok 3 2 s_idle)) = - EAGAIN \<and>
   fst (the (aspeed_mbox_read True False [] u_ok 3 2 s_pending)) = 3 \<and>
   bytes (fst (snd (the (aspeed_mbox_read True False [] u_ok 3 2 s_pending)))) 0 = 0x11 \<and>
   bytes (fst (snd (the (aspeed_mbox_read True False [] u_ok 3 2 s_pending)))) 1 = 0x22 \<and>
   bytes (fst (snd (the (aspeed_mbox_read True False [] u_ok 3 2 s_pending)))) 2 = 0x33 \<and>
   regs (snd (snd (the (aspeed_mbox_read True False [] u_ok 3 2 s_pending)))) 0x1c8 = 0 \<and>
   trace (snd (snd (the (aspeed_mbox_read True False [] u_ok 3 2 s_pending)))) =
     [RegRead 0x1c8, MutexLock, RegRead 0x188, RegRead 0x18c, RegRead 0x190,
      RegWrite 0x1c8 0x80, MutexUnlock] \<and>
   map_option fst (wait_event_interruptible False [Wakeup host_sends False] s_idle) = Some False \<and>
   fst (the (aspeed_mbox_read False False [Wakeup host_sends False] u_ok 3 2 s_idle)) = 3 \<and>
   bytes (fst (snd (the (aspeed_mbox_read False False [Wakeup host_sends False] u_ok 3 2 s_idle)))) 2
     = 0x33 \<and>
   regs (snd (snd (the (aspeed_mbox_read False False [Wakeup host_sends False] u_ok 3 2 s_idle)))) 0x1c8
     = 0 \<and>
   access_ok (u_fault 1) 3 \<and> mapped (u_fault 1) 0 \<and> \<not> mapped (u_fault 1) 1 \<and>
   fst (the (aspeed_mbox_read True False [] (u_fault 1) 3 2 s_pending)) = - EFAULT"
proof -
  have h1: "3 + 2 \<le> ASPEED_MBOX_NUM_REGS" by (simp add: ASPEED_MBOX_NUM_REGS_def)
  have h2: "access_ok u_ok 3" by (simp add: demo_buf)
  have m: "\<forall>k<3. mapped u_ok k" by (simp add: demo_buf)
  have set: "fst (aspeed_mbox_inb s_pending ASPEED_MBOX_BMC_CTRL) AND ASPEED_MBOX_CTRL_RECV \<noteq> 0"
    by (simp add: inb_ctrl inb_value_def demo_eval demo_addr ASPEED_MBOX_CTRL_RECV_def)
  have clear: "fst (aspeed_mbox_inb s_idle ASPEED_MBOX_BMC_CTRL) AND ASPEED_MBOX_CTRL_RECV = 0"
    by (simp add: inb_ctrl inb_value_def demo_eval)
  define s1 where "s1 = snd (aspeed_mbox_inb s_pending ASPEED_MBOX_BMC_CTRL)"
  have s1: "base s1 = 0x180" "ticks s1 = 1" "rd_rc s1 t a = 0" "wr_rc s1 t a = 0"
    "regs s1 = (\<lambda>a. 0)(0x188 := 0x11, 0x18c := 0x22, 0x190 := 0x33, 0x1c8 := 0x82)"
    "trace s1 = [RegRead 0x1c8]" for t a
    by (simp_all add: s1_def inb_ctrl_proj demo_eval demo_addr)
  have gate: "fst (aspeed_mbox_inb s_pending ASPEED_MBOX_BMC_CTRL) AND ASPEED_MBOX_CTRL_RECV \<noteq> 0
          \<and> s1 = snd (aspeed_mbox_inb s_pending ASPEED_MBOX_BMC_CTRL)
        \<or> \<not> True \<and> wait_event_interruptible False [] s_pending = Some (False, s1)"
    using set by (simp add: s1_def)
  txt \<open>A buffer outside the user range.\<close>
  have na: "\<not> access_ok u_noaccess 3" by (simp add: demo_buf)
  from C1_read[OF h1, where u = u_noaccess and s = s_idle and sigp = False and ws = "[]"
      and nonblock = True and ?s1.0 = s1 and n = 1] na
  have f1: "aspeed_mbox_read True False [] u_noaccess 3 2 s_idle = Some (- EFAULT, u_noaccess, s_idle)"
    by blast
  from C1_read[OF h1, where u = u_noaccess and s = s_pending and sigp = False and ws = "[]"
      and nonblock = True and ?s1.0 = s1 and n = 1] na
  have f2: "aspeed_mbox_read True False [] u_noaccess 3 2 s_pending = Some (- EFAULT, u_noaccess, s_pending)"
    by blast
  from C1_read[OF h1, where u = u_noaccess and s = s_idle and sigp = False and ws = "[]"
      and nonblock = False and ?s1.0 = s1 and n = 1] na
  have f3: "aspeed_mbox_read False False [] u_noaccess 3 2 s_idle = Some (- EFAULT, u_noaccess, s_idle)"
    by blast
  have nw: "wait_event_interruptible False [] s_idle = None" by (rule sample_blocking_wait(2))
  txt \<open>A good buffer, non-blocking.\<close>
  from C1_read[OF h1, where u = u_ok and s = s_idle and sigp = False and ws = "[]"
      and nonblock = True and ?s1.0 = s1 and n = 1] h2 clear
  obtain sa where "aspeed_mbox_read True False [] u_ok 3 2 s_idle = Some (- EAGAIN, u_ok, sa)"
    by blast
  then have a: "fst (the (aspeed_mbox_read True False [] u_ok 3 2 s_idle)) = - EAGAIN"
    by simp
  from C1_read[OF h1, where u = u_ok and s = s_pending and sigp = False and ws = "[]"
      and nonblock = True and ?s1.0 = s1 and n = 1] h2 gate m
  obtain u' s' where r: "aspeed_mbox_read True False [] u_ok 3 2 s_pending = Some (3, u', s')"
    and b: "\<forall>k<3. bytes u' k = inb_value s1 (ticks s1 + k) (data_addr (base s1) (2 + k))"
    and t: "trace s' = trace s1 @ [MutexLock]
                        @ map (\<lambda>j. RegRead (data_addr (base s1) j)) [2..<2 + 3]
                        @ [RegWrite (ctrl_addr (base s1)) 0x80, MutexUnlock]"
    and w: "wr_rc s1 (ticks s1 + 3) (ctrl_addr (base s1)) = 0 \<longrightarrow> regs s' (ctrl_addr (base s1)) = 0"
    by auto
  have "bytes u' 0 = 0x11" "bytes u' 1 = 0x22" "bytes u' 2 = 0x33"
    using b[rule_format, of 0] b[rule_format, of 1] b[rule_format, of 2]
    by (simp_all add: inb_value_def s1 demo_addr)
  moreover have "regs s' 0x1c8 = 0" using w by (simp add: s1 demo_addr)
  moreover have "[2..<2 + 3] = [2, 3, 4::nat]" by (simp add: upt_rec)
  then have "trace s' = [RegRead 0x1c8, MutexLock, RegRead 0x188, RegRead 0x18c, RegRead 0x190,
      RegWrite 0x1c8 0x80, MutexUnlock]"
    using t by (simp add: s1 demo_addr)
  ultimately have nb: "fst (the (aspeed_mbox_read True False [] u_ok 3 2 s_pending)) = 3 \<and>
   bytes (fst (snd (the (aspeed_mbox_read True False [] u_ok 3 2 s_pending)))) 0 = 0x11 \<and>
   bytes (fst (snd (the (aspeed_mbox_read True False [] u_ok 3 2 s_pending)))) 1 = 0x22 \<and>
   bytes (fst (snd (the (aspeed_mbox_read True False [] u_ok 3 2 s_pending)))) 2 = 0x33 \<and>
   regs (snd (snd (the (aspeed_mbox_read True False [] u_ok 3 2 s_pending)))) 0x1c8 = 0 \<and>
   trace (snd (snd (the (aspeed_mbox_read True False [] u_ok 3 2 s_pending)))) =
     [RegRead 0x1c8, MutexLock, RegRead 0x188, RegRead 0x18c, RegRead 0x190,
      RegWrite 0x1c8 0x80, MutexUnlock]"
    using r by simp
  txt \<open>A good buffer, blocking.\<close>
  define sw where "sw = s_idle\<lparr>regs := host_sends (\<lambda>a. 0), ticks := 3,
                          trace := [RegRead 0x1c8, RegRead 0x1c8, Schedule, RegRead 0x1c8]\<rparr>"
  have w: "wait_event_interruptible False [Wakeup host_sends False] s_idle = Some (False, sw)"
    unfolding sw_def by (rule sample_blocking_wait(1))
  have sw: "base sw = 0x180" "ticks sw = 3" "rd_rc sw t a = 0" "wr_rc sw t a = 0"
    "regs sw = (\<lambda>a. 0)(0x188 := 0x11, 0x18c := 0x22, 0x190 := 0x33, 0x1c8 := 0x80)" for t a
    by (simp_all add: sw_def demo_eval host_sends_def)
  from C1_read[OF h1, where u = u_ok and s = s_idle and sigp = False
      and ws = "[Wakeup host_sends False]" and nonblock = False and ?s1.0 = sw and n = 1] h2 w m
  obtain ub sb where rb: "aspeed_mbox_read False False [Wakeup host_sends False] u_ok 3 2 s_idle
                            = Some (3, ub, sb)"
    and bb: "\<forall>k<3. bytes ub k = inb_value sw (ticks sw + k) (data_addr (base sw) (2 + k))"
    and wb: "wr_rc sw (ticks sw + 3) (ctrl_addr (base sw)) = 0 \<longrightarrow> regs sb (ctrl_addr (base sw)) = 0"
    by auto
  have "bytes ub 2 = 0x33" using bb[rule_format, of 2] by (simp add: inb_value_def sw demo_addr)
  moreover have "regs sb 0x1c8 = 0" using wb by (simp add: sw demo_addr)
  ultimately have bl: "fst (the (aspeed_mbox_read False False [Wakeup host_sends False] u_ok 3 2 s_idle)) = 3 \<and>
   bytes (fst (snd (the (aspeed_mbox_read False False [Wakeup host_sends False] u_ok 3 2 s_idle)))) 2
     = 0x33 \<and>
   regs (snd (snd (the (aspeed_mbox_read False False [Wakeup host_sends False] u_ok 3 2 s_idle)))) 0x1c8
     = 0"
    using rb by simp
  have w': "map_option fst (wait_event_interruptible False [Wakeup host_sends False] s_idle) = Some False"
    by (simp add: w)
  txt \<open>A buffer that faults at its second byte.\<close>
  have q2: "access_ok (u_fault 1) 3" by (simp add: demo_buf)
  have q4: "(1::nat) < 3" by simp
  have q5: "\<forall>k<1. mapped (u_fault 1) k" by (simp add: demo_buf)
  have q6: "\<not> mapped (u_fault 1) 1" by (simp add: demo_buf)
  have q7: "mapped (u_fault 1) 0" by (simp add: demo_buf)
  from C1_read[OF h1, where u = "u_fault 1" and s = s_pending and sigp = False and ws = "[]"
      and nonblock = True and ?s1.0 = s1 and n = 1] q2 gate q4 q5 q6
  obtain uf sf where "aspeed_mbox_read True False [] (u_fault 1) 3 2 s_pending = Some (- EFAULT, uf, sf)"
    by blast
  then have fl: "fst (the (aspeed_mbox_read True False [] (u_fault 1) 3 2 s_pending)) = - EFAULT"
    by simp
  show ?thesis using h1 h2 set clear na f1 f2 nw f3 a nb bl w' q2 q7 q6 fl by blast
qed

subsection \<open>C2: the interrupt handler\<close>

text \<open>
  C2. The interrupt handler reads the BMC control register once. If the byte read has
  RECV clear it returns \<open>IRQ_NONE\<close>, and that read is all it did: no register write, no
  wake-up. If the byte read has RECV set it returns \<open>IRQ_HANDLED\<close> after exactly one
  register write, of the MASK bit value \<open>0x02\<close> to the control register, followed by one
  \<open>wake_up\<close>; when the bus write succeeds the register's RECV bit is as it was, its MASK
  bit is set and no other register has changed, and when it fails no register has changed.
  When the bus read succeeds, the RECV bit of the byte read is the register's bit 7. In
  neither case does the handler take or release the mutex or sleep.
\<close>

theorem C2_irq:
  "(fst (aspeed_mbox_inb s ASPEED_MBOX_BMC_CTRL) AND ASPEED_MBOX_CTRL_RECV = 0 \<longrightarrow>
      fst (aspeed_mbox_irq s) = IRQ_NONE \<and>
      trace (snd (aspeed_mbox_irq s)) = trace s @ [RegRead (ctrl_addr (base s))] \<and>
      regs (snd (aspeed_mbox_irq s)) = regs s)
   \<and>
   (fst (aspeed_mbox_inb s ASPEED_MBOX_BMC_CTRL) AND ASPEED_MBOX_CTRL_RECV \<noteq> 0 \<longrightarrow>
      fst (aspeed_mbox_irq s) = IRQ_HANDLED \<and>
      trace (snd (aspeed_mbox_irq s)) =
        trace s @ [RegRead (ctrl_addr (base s)), RegWrite (ctrl_addr (base s)) 0x02, WakeUp] \<and>
      (wr_rc s (Suc (ticks s)) (ctrl_addr (base s)) = 0 \<longrightarrow>
         bit (regs (snd (aspeed_mbox_irq s)) (ctrl_addr (base s))) 7
           = bit (regs s (ctrl_addr (base s))) 7 \<and>
         bit (regs (snd (aspeed_mbox_irq s)) (ctrl_addr (base s))) 1 \<and>
         (\<forall>a. a \<noteq> ctrl_addr (base s) \<longrightarrow> regs (snd (aspeed_mbox_irq s)) a = regs s a)) \<and>
      (wr_rc s (Suc (ticks s)) (ctrl_addr (base s)) \<noteq> 0 \<longrightarrow>
         regs (snd (aspeed_mbox_irq s)) = regs s))
   \<and>
   (rd_rc s (ticks s) (ctrl_addr (base s)) = 0 \<longrightarrow>
      (fst (aspeed_mbox_inb s ASPEED_MBOX_BMC_CTRL) AND ASPEED_MBOX_CTRL_RECV \<noteq> 0)
        = bit (regs s (ctrl_addr (base s))) 7)
   \<and>
   filter (\<lambda>e. e = MutexLock \<or> e = MutexUnlock \<or> e = Schedule) (trace (snd (aspeed_mbox_irq s)))
     = filter (\<lambda>e. e = MutexLock \<or> e = MutexUnlock \<or> e = Schedule) (trace s)"
proof -
  obtain c s0 where inb: "aspeed_mbox_inb s ASPEED_MBOX_BMC_CTRL = (c, s0)"
    by (cases "aspeed_mbox_inb s ASPEED_MBOX_BMC_CTRL")
  have s0: "s0 = s\<lparr>ticks := Suc (ticks s), trace := trace s @ [RegRead (ctrl_addr (base s))],
        klog := klog s @ inb_log s (ticks s) (ctrl_addr (base s)) ASPEED_MBOX_BMC_CTRL\<rparr>"
    and c: "c = inb_value s (ticks s) (ctrl_addr (base s))"
    using inb by (simp_all add: inb_ctrl)
  have none: "c AND ASPEED_MBOX_CTRL_RECV = 0 \<Longrightarrow> aspeed_mbox_irq s = (IRQ_NONE, s0)"
    using inb by (simp add: aspeed_mbox_irq_def)
  have handled: "c AND ASPEED_MBOX_CTRL_RECV \<noteq> 0 \<Longrightarrow>
    aspeed_mbox_irq s = (IRQ_HANDLED,
       emit WakeUp (aspeed_mbox_outb s0 ASPEED_MBOX_CTRL_MASK ASPEED_MBOX_BMC_CTRL))"
    using inb by (simp add: aspeed_mbox_irq_def)
  have p1: "c AND ASPEED_MBOX_CTRL_RECV = 0 \<longrightarrow>
      fst (aspeed_mbox_irq s) = IRQ_NONE \<and>
      trace (snd (aspeed_mbox_irq s)) = trace s @ [RegRead (ctrl_addr (base s))] \<and>
      regs (snd (aspeed_mbox_irq s)) = regs s"
    using none by (simp add: s0)
  have p2: "c AND ASPEED_MBOX_CTRL_RECV \<noteq> 0 \<longrightarrow>
      fst (aspeed_mbox_irq s) = IRQ_HANDLED \<and>
      trace (snd (aspeed_mbox_irq s)) =
        trace s @ [RegRead (ctrl_addr (base s)), RegWrite (ctrl_addr (base s)) 0x02, WakeUp] \<and>
      (wr_rc s (Suc (ticks s)) (ctrl_addr (base s)) = 0 \<longrightarrow>
         bit (regs (snd (aspeed_mbox_irq s)) (ctrl_addr (base s))) 7
           = bit (regs s (ctrl_addr (base s))) 7 \<and>
         bit (regs (snd (aspeed_mbox_irq s)) (ctrl_addr (base s))) 1 \<and>
         (\<forall>a. a \<noteq> ctrl_addr (base s) \<longrightarrow> regs (snd (aspeed_mbox_irq s)) a = regs s a)) \<and>
      (wr_rc s (Suc (ticks s)) (ctrl_addr (base s)) \<noteq> 0 \<longrightarrow>
         regs (snd (aspeed_mbox_irq s)) = regs s)"
    using handled
    by (simp add: s0 outb_ctrl emit_def ucast_ctrl_bits dev_write_mask bits_after_mask)
  have p3: "rd_rc s (ticks s) (ctrl_addr (base s)) = 0 \<longrightarrow>
      (c AND ASPEED_MBOX_CTRL_RECV \<noteq> 0) = bit (regs s (ctrl_addr (base s))) 7"
    by (simp add: c inb_value_def recv_test bit_ucast_7)
  have p4: "filter (\<lambda>e. e = MutexLock \<or> e = MutexUnlock \<or> e = Schedule) (trace (snd (aspeed_mbox_irq s)))
     = filter (\<lambda>e. e = MutexLock \<or> e = MutexUnlock \<or> e = Schedule) (trace s)"
  proof (cases "c AND ASPEED_MBOX_CTRL_RECV = 0")
    case True
    then show ?thesis using none by (simp add: s0)
  next
    case False
    then show ?thesis using handled by (simp add: s0 outb_ctrl emit_def)
  qed
  show ?thesis using p1 p2 p3 p4 inb by simp
qed

text \<open>
  The handler on the mailbox with a message pending, and on the idle mailbox.
\<close>

theorem C2_irq_witness:
  "fst (aspeed_mbox_inb s_idle ASPEED_MBOX_BMC_CTRL) AND ASPEED_MBOX_CTRL_RECV = 0 \<and>
   fst (aspeed_mbox_irq s_idle) = IRQ_NONE \<and>
   trace (snd (aspeed_mbox_irq s_idle)) = [RegRead 0x1c8] \<and>
   fst (aspeed_mbox_inb s_unmasked ASPEED_MBOX_BMC_CTRL) AND ASPEED_MBOX_CTRL_RECV \<noteq> 0 \<and>
   fst (aspeed_mbox_irq s_unmasked) = IRQ_HANDLED \<and>
   trace (snd (aspeed_mbox_irq s_unmasked)) = [RegRead 0x1c8, RegWrite 0x1c8 0x02, WakeUp] \<and>
   bit (regs (snd (aspeed_mbox_irq s_unmasked)) 0x1c8) 7 \<and>
   bit (regs (snd (aspeed_mbox_irq s_unmasked)) 0x1c8) 1"
proof -
  have clear: "fst (aspeed_mbox_inb s_idle ASPEED_MBOX_BMC_CTRL) AND ASPEED_MBOX_CTRL_RECV = 0"
    by (simp add: inb_ctrl inb_value_def demo_eval)
  have set: "fst (aspeed_mbox_inb s_unmasked ASPEED_MBOX_BMC_CTRL) AND ASPEED_MBOX_CTRL_RECV \<noteq> 0"
    by (simp add: inb_ctrl inb_value_def s_unmasked_def demo_eval demo_addr ASPEED_MBOX_CTRL_RECV_def)
  have b7: "bit (regs s_unmasked (ctrl_addr (base s_unmasked))) 7"
    by (simp add: s_unmasked_def demo_eval demo_addr bit_80)
  show ?thesis
    using C2_irq[of s_idle] C2_irq[of s_unmasked] clear set b7
    by (simp add: s_unmasked_def demo_eval demo_addr)
qed

subsection \<open>C3: open and release\<close>

text \<open>
  C3. \<open>open\<close> fails with \<open>-EBUSY\<close> (Busy) when a session is already open, and then the
  whole state, its trace of register accesses included, is as before. Otherwise it
  returns 0, the open counter is 1, and what it did is one register write, of the RECV bit
  value \<open>0x80\<close> to the BMC control register: no register but the control register has
  changed, and that one has RECV and MASK clear when the bus write succeeds. \<open>release\<close>
  decrements the counter and does no register access, so that after \<open>release\<close> of the
  open session \<open>open\<close> succeeds; and a second \<open>open\<close> right after a successful one
  fails with \<open>-EBUSY\<close>.
\<close>

theorem C3_open_release:
  "(open_count s \<noteq> 0 \<longrightarrow> aspeed_mbox_open s = (- EBUSY, s))
   \<and>
   (open_count s = 0 \<longrightarrow>
      fst (aspeed_mbox_open s) = 0 \<and>
      open_count (snd (aspeed_mbox_open s)) = 1 \<and>
      trace (snd (aspeed_mbox_open s)) = trace s @ [RegWrite (ctrl_addr (base s)) 0x80] \<and>
      (\<forall>a. a \<noteq> ctrl_addr (base s) \<longrightarrow> regs (snd (aspeed_mbox_open s)) a = regs s a) \<and>
      (wr_rc s (ticks s) (ctrl_addr (base s)) = 0 \<longrightarrow>
         regs (snd (aspeed_mbox_open s)) (ctrl_addr (base s)) = 0) \<and>
      aspeed_mbox_open (snd (aspeed_mbox_open s)) = (- EBUSY, snd (aspeed_mbox_open s)))
   \<and>
   aspeed_mbox_release s = (0, s\<lparr>open_count := open_count s - 1\<rparr>)
   \<and>
   (open_count s = 1 \<longrightarrow>
      open_count (snd (aspeed_mbox_release s)) = 0 \<and>
      fst (aspeed_mbox_open (snd (aspeed_mbox_release s))) = 0)"
proof -
  have busy: "aspeed_mbox_open s = (- EBUSY, s)" if "open_count s \<noteq> 0" for s
    using that by (simp add: aspeed_mbox_open_def Let_def)
  have ok: "aspeed_mbox_open s =
      (0, aspeed_mbox_outb (s\<lparr>open_count := 1\<rparr>) ASPEED_MBOX_CTRL_RECV ASPEED_MBOX_BMC_CTRL)"
    if "open_count s = 0" for s
    using that by (simp add: aspeed_mbox_open_def Let_def)
  have p2: "open_count s = 0 \<longrightarrow>
      fst (aspeed_mbox_open s) = 0 \<and>
      open_count (snd (aspeed_mbox_open s)) = 1 \<and>
      trace (snd (aspeed_mbox_open s)) = trace s @ [RegWrite (ctrl_addr (base s)) 0x80] \<and>
      (\<forall>a. a \<noteq> ctrl_addr (base s) \<longrightarrow> regs (snd (aspeed_mbox_open s)) a = regs s a) \<and>
      (wr_rc s (ticks s) (ctrl_addr (base s)) = 0 \<longrightarrow>
         regs (snd (aspeed_mbox_open s)) (ctrl_addr (base s)) = 0)"
    by (simp add: ok outb_ctrl ucast_ctrl_bits dev_write_ack)
  have p2b: "open_count s = 0 \<longrightarrow>
      aspeed_mbox_open (snd (aspeed_mbox_open s)) = (- EBUSY, snd (aspeed_mbox_open s))"
    using p2 by (simp add: busy)
  have p3: "aspeed_mbox_release s = (0, s\<lparr>open_count := open_count s - 1\<rparr>)"
    by (simp add: aspeed_mbox_release_def)
  have p4: "open_count s = 1 \<longrightarrow>
      open_count (snd (aspeed_mbox_release s)) = 0 \<and>
      fst (aspeed_mbox_open (snd (aspeed_mbox_release s))) = 0"
    by (simp add: p3 ok)
  show ?thesis using busy[of s] p2 p2b p3 p4 by simp
qed

text \<open>
  A session on the sample mailbox: the open mailbox refuses a second \<open>open\<close>; after
  \<open>release\<close> the next \<open>open\<close> succeeds with the acknowledge write, and the one after
  that is refused again.
\<close>

theorem C3_open_release_witness:
  "open_count s_pending = 1 \<and>
   aspeed_mbox_open s_pending = (- EBUSY, s_pending) \<and>
   open_count (snd (aspeed_mbox_release s_pending)) = 0 \<and>
   fst (aspeed_mbox_open (snd (aspeed_mbox_release s_pending))) = 0 \<and>
   trace (snd (aspeed_mbox_open (snd (aspeed_mbox_release s_pending)))) = [RegWrite 0x1c8 0x80] \<and>
   regs (snd (aspeed_mbox_open (snd (aspeed_mbox_release s_pending)))) 0x1c8 = 0 \<and>
   regs (snd (aspeed_mbox_open (snd (aspeed_mbox_release s_pending)))) 0x188 = 0x11 \<and>
   fst (aspeed_mbox_open (snd (aspeed_mbox_open (snd (aspeed_mbox_release s_pending))))) = - EBUSY"
proof -
  define r where "r = snd (aspeed_mbox_release s_pending)"
  have r: "r = s_pending\<lparr>open_count := 0\<rparr>"
    by (simp add: r_def aspeed_mbox_release_def demo_eval)
  have r0: "base r = 0x180" "wr_rc r t a = 0" "ticks r = 0" "trace r = []"
    "regs r 0x188 = 0x11" for t a
    by (simp_all add: r demo_eval)
  have a: "aspeed_mbox_open s_pending = (- EBUSY, s_pending)" "open_count r = 0"
    using C3_open_release[of s_pending] by (simp_all add: r_def demo_eval)
  have b: "fst (aspeed_mbox_open r) = 0" "trace (snd (aspeed_mbox_open r)) = [RegWrite 0x1c8 0x80]"
    "regs (snd (aspeed_mbox_open r)) 0x1c8 = 0" "regs (snd (aspeed_mbox_open r)) 0x188 = 0x11"
    "fst (aspeed_mbox_open (snd (aspeed_mbox_open r))) = - EBUSY"
    using C3_open_release[of r] a(2) r0 by (simp_all add: demo_addr)
  show ?thesis
    unfolding r_def[symmetric] using a b by (simp add: demo_eval)
qed

subsection \<open>C4: write\<close>

text \<open>
  C4. For every offset and length with \<open>count + *ppos \<le> 16\<close> and a readable source
  buffer (it passes \<open>access_ok\<close> and every byte of it can be read), whatever the registers
  hold (so whatever the RECV state): write returns \<open>count\<close>; what it does is take the
  mutex, write source byte \<open>j - *ppos\<close>, unchanged, to data register \<open>j\<close> for \<open>j\<close> from
  \<open>*ppos\<close> to \<open>*ppos + count - 1\<close> in order, write the SEND bit value \<open>0x01\<close> to the BMC
  control register, and release the mutex; it never goes to sleep on the wait queue;
  afterwards each data register whose bus write succeeded holds its source byte, and the
  control register has SEND set when its bus write succeeded.
\<close>

theorem C4_write:
  assumes "count + ppos \<le> ASPEED_MBOX_NUM_REGS" and "access_ok u count"
    and "\<forall>k<count. mapped u k"
  shows
    "\<exists>s'. aspeed_mbox_write u count ppos s = (int count, s') \<and>
       trace s' = trace s @ [MutexLock]
                    @ map (\<lambda>j. RegWrite (data_addr (base s) j) (ucast (bytes u (j - ppos))))
                        [ppos..<ppos + count]
                    @ [RegWrite (ctrl_addr (base s)) 0x01, MutexUnlock] \<and>
       (\<forall>j. ppos \<le> j \<and> j < ppos + count \<and>
             wr_rc s (ticks s + (j - ppos)) (data_addr (base s) j) = 0 \<longrightarrow>
           regs s' (data_addr (base s) j) = ucast (bytes u (j - ppos))) \<and>
       (wr_rc s (ticks s + count) (ctrl_addr (base s)) = 0 \<longrightarrow>
           bit (regs s' (ctrl_addr (base s))) 0) \<and>
       filter (\<lambda>e. e = Schedule) (trace s') = filter (\<lambda>e. e = Schedule) (trace s)"
proof -
  let ?s' = "snd (aspeed_mbox_write u count ppos s)"
  have "aspeed_mbox_write u count ppos s = (int count, ?s')"
    using assms by (simp add: write_ok)
  moreover note write_ok_trace[OF assms, of s]
  moreover have "\<forall>j. ppos \<le> j \<and> j < ppos + count \<and>
             wr_rc s (ticks s + (j - ppos)) (data_addr (base s) j) = 0 \<longrightarrow>
           regs ?s' (data_addr (base s) j) = ucast (bytes u (j - ppos))"
  proof (intro allI impI)
    fix j
    assume "ppos \<le> j \<and> j < ppos + count \<and>
             wr_rc s (ticks s + (j - ppos)) (data_addr (base s) j) = 0"
    then have 1: "ppos \<le> j" and 2: "j < ppos + count"
      and 3: "wr_rc s (ticks s + (j - ppos)) (data_addr (base s) j) = 0"
      by blast+
    have "regs ?s' (data_addr (base s) j) =
           (if wr_rc s (ticks s + (j - ppos)) (data_addr (base s) j) = 0
            then ucast (bytes u (j - ppos)) else regs s (data_addr (base s) j))"
      by (rule write_ok_data[OF assms 1 2])
    also have "\<dots> = ucast (bytes u (j - ppos))"
      by (simp only: 3 refl if_True)
    finally show "regs ?s' (data_addr (base s) j) = ucast (bytes u (j - ppos))" .
  qed
  moreover have "wr_rc s (ticks s + count) (ctrl_addr (base s)) = 0 \<longrightarrow>
           bit (regs ?s' (ctrl_addr (base s))) 0"
    by (simp add: write_ok_regs[OF assms] bit_or_iff)
  moreover have "filter (\<lambda>e. e = Schedule) (trace ?s') = filter (\<lambda>e. e = Schedule) (trace s)"
    by (simp add: write_ok_trace[OF assms] filter_map o_def)
  ultimately show ?thesis by blast
qed

text \<open>
  Three bytes written at offset 2 of the sample mailbox while a message is pending.
\<close>

theorem C4_write_witness:
  "3 + 2 \<le> ASPEED_MBOX_NUM_REGS \<and> access_ok u_src 3 \<and>
   mapped u_src 0 \<and> mapped u_src 1 \<and> mapped u_src 2 \<and>
   fst (aspeed_mbox_write u_src 3 2 s_pending) = 3 \<and>
   trace (snd (aspeed_mbox_write u_src 3 2 s_pending)) =
     [MutexLock, RegWrite 0x188 0xa0, RegWrite 0x18c 0xa1, RegWrite 0x190 0xa2,
      RegWrite 0x1c8 0x01, MutexUnlock] \<and>
   regs (snd (aspeed_mbox_write u_src 3 2 s_pending)) 0x188 = 0xa0 \<and>
   regs (snd (aspeed_mbox_write u_src 3 2 s_pending)) 0x18c = 0xa1 \<and>
   regs (snd (aspeed_mbox_write u_src 3 2 s_pending)) 0x190 = 0xa2 \<and>
   bit (regs (snd (aspeed_mbox_write u_src 3 2 s_pending)) 0x1c8) 0"
proof -
  have h1: "3 + 2 \<le> ASPEED_MBOX_NUM_REGS" by (simp add: ASPEED_MBOX_NUM_REGS_def)
  have h2: "access_ok u_src 3" by (simp add: access_ok_def u_src_def)
  have h3: "\<forall>k<3. mapped u_src k" by (simp add: u_src_def)
  have sb: "bytes u_src 0 = 0xa0" "bytes u_src 1 = 0xa1" "bytes u_src 2 = 0xa2"
    "bytes u_src (Suc 0) = 0xa1"
    by (simp_all add: u_src_def)
  from C4_write[OF h1 h2 h3, of s_pending]
  obtain s' where r: "aspeed_mbox_write u_src 3 2 s_pending = (3, s')"
    and t: "trace s' = trace s_pending @ [MutexLock]
                    @ map (\<lambda>j. RegWrite (data_addr (base s_pending) j) (ucast (bytes u_src (j - 2))))
                        [2..<2 + 3]
                    @ [RegWrite (ctrl_addr (base s_pending)) 0x01, MutexUnlock]"
    and d: "\<forall>j. 2 \<le> j \<and> j < 2 + 3 \<and>
             wr_rc s_pending (ticks s_pending + (j - 2)) (data_addr (base s_pending) j) = 0 \<longrightarrow>
           regs s' (data_addr (base s_pending) j) = ucast (bytes u_src (j - 2))"
    and c: "wr_rc s_pending (ticks s_pending + 3) (ctrl_addr (base s_pending)) = 0 \<longrightarrow>
           bit (regs s' (ctrl_addr (base s_pending))) 0"
    by auto
  have "[2..<2 + 3] = [2, 3, 4::nat]" by (simp add: upt_rec)
  then have "trace s' = [MutexLock, RegWrite 0x188 0xa0, RegWrite 0x18c 0xa1, RegWrite 0x190 0xa2,
      RegWrite 0x1c8 0x01, MutexUnlock]"
    using t by (simp add: demo_eval demo_addr sb)
  moreover have "regs s' 0x188 = 0xa0" "regs s' 0x18c = 0xa1" "regs s' 0x190 = 0xa2"
    using d[rule_format, of 2] d[rule_format, of 3] d[rule_format, of 4]
    by (simp_all add: demo_eval demo_addr sb)
  moreover have "bit (regs s' 0x1c8) 0" using c by (simp add: demo_eval demo_addr)
  ultimately show ?thesis using h1 h2 h3 r by simp
qed

subsection \<open>C5: the range check\<close>

text \<open>
  C5 as stated fails: a read or a write of 17 bytes at offset 0 whose buffer does not pass
  \<open>access_ok\<close> returns \<open>-EFAULT\<close> (Fault), not \<open>-EINVAL\<close> (InvalidArgument): both
  functions test the buffer before the bound.
\<close>

theorem C5_bound_counterexample:
  "17 + 0 > ASPEED_MBOX_NUM_REGS \<and>
   aspeed_mbox_read True False [] u_noaccess 17 0 s_idle = Some (- EFAULT, u_noaccess, s_idle) \<and>
   aspeed_mbox_write u_noaccess 17 0 s_idle = (- EFAULT, s_idle) \<and>
   - EFAULT \<noteq> - EINVAL"
  by (simp add: aspeed_mbox_read_def aspeed_mbox_write_def demo_buf ASPEED_MBOX_NUM_REGS_def
      EFAULT_def EINVAL_def)

text \<open>
  C5, amended. For every read or write call with \<open>count + *ppos > 16\<close>: when the buffer
  passes \<open>access_ok\<close> the call returns \<open>-EINVAL\<close> (InvalidArgument), and when it does not
  the call returns \<open>-EFAULT\<close> (Fault); either way it returns before any hardware access:
  the state (the control register with its RECV bit, the data window, the trace of bus
  transactions) and the caller's buffer are exactly as before.
\<close>

theorem C5_bound:
  assumes "count + ppos > ASPEED_MBOX_NUM_REGS"
  shows
    "(access_ok u count \<longrightarrow>
        aspeed_mbox_read nonblock sigp ws u count ppos s = Some (- EINVAL, u, s) \<and>
        aspeed_mbox_write u count ppos s = (- EINVAL, s))
     \<and>
     (\<not> access_ok u count \<longrightarrow>
        aspeed_mbox_read nonblock sigp ws u count ppos s = Some (- EFAULT, u, s) \<and>
        aspeed_mbox_write u count ppos s = (- EFAULT, s))"
  using assms by (simp add: aspeed_mbox_read_def aspeed_mbox_write_def)

text \<open>
  Ten bytes at offset 7 of the sample mailbox with a message pending, blocking or not.
\<close>

theorem C5_bound_witness:
  "10 + 7 > ASPEED_MBOX_NUM_REGS \<and> access_ok u_ok 10 \<and>
   aspeed_mbox_read True False [] u_ok 10 7 s_pending = Some (- EINVAL, u_ok, s_pending) \<and>
   aspeed_mbox_read False False [] u_ok 10 7 s_pending = Some (- EINVAL, u_ok, s_pending) \<and>
   aspeed_mbox_write u_ok 10 7 s_pending = (- EINVAL, s_pending) \<and>
   \<not> access_ok u_noaccess 10 \<and>
   aspeed_mbox_read True False [] u_noaccess 10 7 s_pending = Some (- EFAULT, u_noaccess, s_pending)"
proof -
  have h: "10 + 7 > ASPEED_MBOX_NUM_REGS" by (simp add: ASPEED_MBOX_NUM_REGS_def)
  have a: "access_ok u_ok 10" "\<not> access_ok u_noaccess 10" by (simp_all add: demo_buf)
  show ?thesis
    using C5_bound[OF h, of u_ok True False "[]" s_pending]
      C5_bound[OF h, of u_ok False False "[]" s_pending]
      C5_bound[OF h, of u_noaccess True False "[]" s_pending] h a
    by simp
qed

subsection \<open>C6: bus failures\<close>

text \<open>
  C6. Take a read that has reached its copy loop (state \<open>s1\<close> at the lock) with a buffer
  that accepts every byte, and any pattern of bus failures. Whenever the bus read of a data
  register fails, the caller gets the sentinel \<open>0xff\<close> at that index and the failure is in
  the kernel log; where it succeeds the caller gets the register's low byte; the loop
  still reads all \<open>count\<close> registers and read still returns \<open>count\<close>. The value read
  returns does not depend on the bus read failures at all, whether the buffer accepts
  every byte or not. A failed register write is logged by \<open>aspeed_mbox_outb\<close>, which
  returns nothing to its caller; a write call with a readable buffer returns \<open>count\<close>
  whatever bus writes fail, with each failed data write in the log.
\<close>

theorem C6_bus_failures:
  "(count + ppos \<le> ASPEED_MBOX_NUM_REGS \<and> access_ok u count \<and>
    (fst (aspeed_mbox_inb s ASPEED_MBOX_BMC_CTRL) AND ASPEED_MBOX_CTRL_RECV \<noteq> 0
          \<and> s1 = snd (aspeed_mbox_inb s ASPEED_MBOX_BMC_CTRL)
        \<or> \<not> nonblock \<and> wait_event_interruptible sigp ws s = Some (False, s1)) \<and>
    (\<forall>k<count. mapped u k) \<longrightarrow>
      (\<exists>u' s'. aspeed_mbox_read nonblock sigp ws u count ppos s = Some (int count, u', s') \<and>
         (\<forall>k<count.
            (rd_rc s1 (ticks s1 + k) (data_addr (base s1) (ppos + k)) \<noteq> 0 \<longrightarrow>
               bytes u' k = 0xff \<and>
               ReadFailed (rd_rc s1 (ticks s1 + k) (data_addr (base s1) (ppos + k)))
                 (ASPEED_MBOX_DATA_0 + (ppos + k) * 4) \<in> set (klog s')) \<and>
            (rd_rc s1 (ticks s1 + k) (data_addr (base s1) (ppos + k)) = 0 \<longrightarrow>
               bytes u' k = ucast (regs s1 (data_addr (base s1) (ppos + k))))) \<and>
         trace s' = trace s1 @ [MutexLock]
                      @ map (\<lambda>j. RegRead (data_addr (base s1) j)) [ppos..<ppos + count]
                      @ [RegWrite (ctrl_addr (base s1)) 0x80, MutexUnlock]))
   \<and>
   (count + ppos \<le> ASPEED_MBOX_NUM_REGS \<longrightarrow>
      fst (read_locked u count ppos (s1\<lparr>rd_rc := f\<rparr>)) = fst (read_locked u count ppos s1))
   \<and>
   klog (aspeed_mbox_outb s d reg) =
     klog s @ (if wr_rc s (ticks s) (base s + of_nat reg) \<noteq> 0
               then [WriteFailed (wr_rc s (ticks s) (base s + of_nat reg)) d reg] else [])
   \<and>
   (count + ppos \<le> ASPEED_MBOX_NUM_REGS \<and> access_ok u count \<and> (\<forall>k<count. mapped u k) \<longrightarrow>
      fst (aspeed_mbox_write u count ppos s) = int count \<and>
      (\<forall>k<count. wr_rc s (ticks s + k) (data_addr (base s) (ppos + k)) \<noteq> 0 \<longrightarrow>
         WriteFailed (wr_rc s (ticks s + k) (data_addr (base s) (ppos + k))) (bytes u k)
           (ASPEED_MBOX_DATA_0 + (ppos + k) * 4) \<in> set (klog (snd (aspeed_mbox_write u count ppos s)))))"
proof (intro conjI impI)
  assume h: "count + ppos \<le> ASPEED_MBOX_NUM_REGS \<and> access_ok u count \<and>
    (fst (aspeed_mbox_inb s ASPEED_MBOX_BMC_CTRL) AND ASPEED_MBOX_CTRL_RECV \<noteq> 0
          \<and> s1 = snd (aspeed_mbox_inb s ASPEED_MBOX_BMC_CTRL)
        \<or> \<not> nonblock \<and> wait_event_interruptible sigp ws s = Some (False, s1)) \<and>
    (\<forall>k<count. mapped u k)"
  then have b: "count + ppos \<le> ASPEED_MBOX_NUM_REGS" and a: "access_ok u count"
    and g: "fst (aspeed_mbox_inb s ASPEED_MBOX_BMC_CTRL) AND ASPEED_MBOX_CTRL_RECV \<noteq> 0
          \<and> s1 = snd (aspeed_mbox_inb s ASPEED_MBOX_BMC_CTRL)
        \<or> \<not> nonblock \<and> wait_event_interruptible sigp ws s = Some (False, s1)"
    and m: "\<forall>k<count. mapped u k"
    by blast+
  let ?r = "read_locked u count ppos s1"
  have rd: "aspeed_mbox_read nonblock sigp ws u count ppos s = Some ?r"
    by (rule read_reaches_lock[OF b a g])
  have l: "?r = (int count, fst (snd ?r), snd (snd ?r))"
    using b m by (simp add: read_locked_ok)
  have bts: "\<forall>k<count.
            (rd_rc s1 (ticks s1 + k) (data_addr (base s1) (ppos + k)) \<noteq> 0 \<longrightarrow>
               bytes (fst (snd ?r)) k = 0xff \<and>
               ReadFailed (rd_rc s1 (ticks s1 + k) (data_addr (base s1) (ppos + k)))
                 (ASPEED_MBOX_DATA_0 + (ppos + k) * 4) \<in> set (klog (snd (snd ?r)))) \<and>
            (rd_rc s1 (ticks s1 + k) (data_addr (base s1) (ppos + k)) = 0 \<longrightarrow>
               bytes (fst (snd ?r)) k = ucast (regs s1 (data_addr (base s1) (ppos + k))))"
  proof (intro allI impI conjI)
    fix k assume k: "k < count"
    have v: "bytes (fst (snd ?r)) k = inb_value s1 (ticks s1 + k) (data_addr (base s1) (ppos + k))"
      using b m k by (simp add: read_locked_ok read_buf_bytes)
    {
      assume f: "rd_rc s1 (ticks s1 + k) (data_addr (base s1) (ppos + k)) \<noteq> 0"
      show "bytes (fst (snd ?r)) k = 0xff" using v f by (simp add: inb_value_def)
      show "ReadFailed (rd_rc s1 (ticks s1 + k) (data_addr (base s1) (ppos + k)))
                 (ASPEED_MBOX_DATA_0 + (ppos + k) * 4) \<in> set (klog (snd (snd ?r)))"
        by (rule read_locked_logs_failure[OF b m k f])
    }
    {
      assume "rd_rc s1 (ticks s1 + k) (data_addr (base s1) (ppos + k)) = 0"
      then show "bytes (fst (snd ?r)) k = ucast (regs s1 (data_addr (base s1) (ppos + k)))"
        using v by (simp add: inb_value_def)
    }
  qed
  note tr = read_locked_ok_trace[OF b m, of s1]
  show "\<exists>u' s'. aspeed_mbox_read nonblock sigp ws u count ppos s = Some (int count, u', s') \<and>
         (\<forall>k<count.
            (rd_rc s1 (ticks s1 + k) (data_addr (base s1) (ppos + k)) \<noteq> 0 \<longrightarrow>
               bytes u' k = 0xff \<and>
               ReadFailed (rd_rc s1 (ticks s1 + k) (data_addr (base s1) (ppos + k)))
                 (ASPEED_MBOX_DATA_0 + (ppos + k) * 4) \<in> set (klog s')) \<and>
            (rd_rc s1 (ticks s1 + k) (data_addr (base s1) (ppos + k)) = 0 \<longrightarrow>
               bytes u' k = ucast (regs s1 (data_addr (base s1) (ppos + k))))) \<and>
         trace s' = trace s1 @ [MutexLock]
                      @ map (\<lambda>j. RegRead (data_addr (base s1) j)) [ppos..<ppos + count]
                      @ [RegWrite (ctrl_addr (base s1)) 0x80, MutexUnlock]"
    unfolding rd using l bts tr
    by (intro exI[of _ "fst (snd ?r)"] exI[of _ "snd (snd ?r)"]) (simp only: simp_thms)
next
  assume "count + ppos \<le> ASPEED_MBOX_NUM_REGS"
  then show "fst (read_locked u count ppos (s1\<lparr>rd_rc := f\<rparr>)) = fst (read_locked u count ppos s1)"
    by (rule read_locked_result_any_bus)
next
  show "klog (aspeed_mbox_outb s d reg) =
     klog s @ (if wr_rc s (ticks s) (base s + of_nat reg) \<noteq> 0
               then [WriteFailed (wr_rc s (ticks s) (base s + of_nat reg)) d reg] else [])"
    by (simp add: outb_eq outb_log_def)
next
  assume h: "count + ppos \<le> ASPEED_MBOX_NUM_REGS \<and> access_ok u count \<and> (\<forall>k<count. mapped u k)"
  then show "fst (aspeed_mbox_write u count ppos s) = int count"
    by (simp add: write_ok)
next
  assume h: "count + ppos \<le> ASPEED_MBOX_NUM_REGS \<and> access_ok u count \<and> (\<forall>k<count. mapped u k)"
  then have b: "count + ppos \<le> ASPEED_MBOX_NUM_REGS" and a: "access_ok u count"
    and m: "\<forall>k<count. mapped u k" by blast+
  show "\<forall>k<count. wr_rc s (ticks s + k) (data_addr (base s) (ppos + k)) \<noteq> 0 \<longrightarrow>
         WriteFailed (wr_rc s (ticks s + k) (data_addr (base s) (ppos + k))) (bytes u k)
           (ASPEED_MBOX_DATA_0 + (ppos + k) * 4) \<in> set (klog (snd (aspeed_mbox_write u count ppos s)))"
    using write_logs_failure[OF b a m] by blast
qed

text \<open>
  The sample mailbox with a message pending, on a bus where every access to data register
  3 fails with \<open>-5\<close>: three bytes read from offset 2, and three bytes written there.
\<close>

theorem C6_bus_failures_witness:
  "3 + 2 \<le> ASPEED_MBOX_NUM_REGS \<and> access_ok u_ok 3 \<and> access_ok u_src 3 \<and>
   fst (aspeed_mbox_inb s_flaky ASPEED_MBOX_BMC_CTRL) AND ASPEED_MBOX_CTRL_RECV \<noteq> 0 \<and>
   rd_rc s_flaky 2 0x18c = - 5 \<and> wr_rc s_flaky 1 0x18c = - 5 \<and>
   fst (the (aspeed_mbox_read True False [] u_ok 3 2 s_flaky)) = 3 \<and>
   bytes (fst (snd (the (aspeed_mbox_read True False [] u_ok 3 2 s_flaky)))) 0 = 0x11 \<and>
   bytes (fst (snd (the (aspeed_mbox_read True False [] u_ok 3 2 s_flaky)))) 1 = 0xff \<and>
   bytes (fst (snd (the (aspeed_mbox_read True False [] u_ok 3 2 s_flaky)))) 2 = 0x33 \<and>
   ReadFailed (- 5) 12 \<in> set (klog (snd (snd (the (aspeed_mbox_read True False [] u_ok 3 2 s_flaky))))) \<and>
   fst (aspeed_mbox_write u_src 3 2 s_flaky) = 3 \<and>
   WriteFailed (- 5) 0xa1 12 \<in> set (klog (snd (aspeed_mbox_write u_src 3 2 s_flaky)))"
proof -
  define s1 where "s1 = snd (aspeed_mbox_inb s_flaky ASPEED_MBOX_BMC_CTRL)"
  have fl: "base s_flaky = 0x180" "ticks s_flaky = 0"
    "rd_rc s_flaky t a = (if a = 0x18c then - 5 else 0)"
    "wr_rc s_flaky t a = (if a = 0x18c then - 5 else 0)"
    "regs s_flaky = (\<lambda>a. 0)(0x188 := 0x11, 0x18c := 0x22, 0x190 := 0x33, 0x1c8 := 0x82)" for t a
    by (simp_all add: s_flaky_def demo_eval)
  have g: "fst (aspeed_mbox_inb s_flaky ASPEED_MBOX_BMC_CTRL) AND ASPEED_MBOX_CTRL_RECV \<noteq> 0"
    by (simp add: inb_ctrl inb_value_def fl demo_addr ASPEED_MBOX_CTRL_RECV_def)
  have s1: "base s1 = 0x180" "ticks s1 = 1" "rd_rc s1 t a = (if a = 0x18c then - 5 else 0)"
    "regs s1 = (\<lambda>a. 0)(0x188 := 0x11, 0x18c := 0x22, 0x190 := 0x33, 0x1c8 := 0x82)" for t a
    by (simp_all add: s1_def inb_ctrl_proj fl)
  have h1: "3 + 2 \<le> ASPEED_MBOX_NUM_REGS" by (simp add: ASPEED_MBOX_NUM_REGS_def)
  have h2: "access_ok u_ok 3" "access_ok u_src 3" by (simp_all add: access_ok_def u_ok_def u_src_def)
  have m: "\<forall>k<3. mapped u_ok k" "\<forall>k<3. mapped u_src k" by (simp_all add: demo_buf u_src_def)
  have sb: "bytes u_src 1 = 0xa1" "bytes u_src (Suc 0) = 0xa1" by (simp_all add: u_src_def)
  have pre: "3 + 2 \<le> ASPEED_MBOX_NUM_REGS \<and> access_ok u_ok 3 \<and>
    (fst (aspeed_mbox_inb s_flaky ASPEED_MBOX_BMC_CTRL) AND ASPEED_MBOX_CTRL_RECV \<noteq> 0
          \<and> s1 = snd (aspeed_mbox_inb s_flaky ASPEED_MBOX_BMC_CTRL)
        \<or> \<not> True \<and> wait_event_interruptible False [] s_flaky = Some (False, s1)) \<and>
    (\<forall>k<3. mapped u_ok k)"
    using h1 h2 g m by (simp add: s1_def)
  note c6 = C6_bus_failures[where count = 3 and ppos = 2 and u = u_ok and s = s_flaky
      and ?s1.0 = s1 and nonblock = True and sigp = False and ws = "[]" and f = "rd_rc s1"
      and d = 0 and reg = 0]
  from c6[THEN conjunct1, rule_format, OF pre]
  obtain u' s' where r: "aspeed_mbox_read True False [] u_ok 3 2 s_flaky = Some (int 3, u', s')"
    and b: "\<forall>k<3.
            (rd_rc s1 (ticks s1 + k) (data_addr (base s1) (2 + k)) \<noteq> 0 \<longrightarrow>
               bytes u' k = 0xff \<and>
               ReadFailed (rd_rc s1 (ticks s1 + k) (data_addr (base s1) (2 + k)))
                 (ASPEED_MBOX_DATA_0 + (2 + k) * 4) \<in> set (klog s')) \<and>
            (rd_rc s1 (ticks s1 + k) (data_addr (base s1) (2 + k)) = 0 \<longrightarrow>
               bytes u' k = ucast (regs s1 (data_addr (base s1) (2 + k))))"
    by blast
  have r0: "bytes u' 0 = 0x11" using b[rule_format, of 0] by (simp add: s1 demo_addr)
  have r1: "bytes u' 1 = 0xff" "ReadFailed (- 5) 12 \<in> set (klog s')"
    using b[rule_format, of 1] by (simp_all add: s1 demo_addr ASPEED_MBOX_DATA_0_def)
  have r2: "bytes u' 2 = 0x33" using b[rule_format, of 2] by (simp add: s1 demo_addr)
  have prew: "3 + 2 \<le> ASPEED_MBOX_NUM_REGS \<and> access_ok u_src 3 \<and> (\<forall>k<3. mapped u_src k)"
    using h1 h2 m by simp
  note c6w = C6_bus_failures[where count = 3 and ppos = 2 and u = u_src and s = s_flaky
      and ?s1.0 = s1 and nonblock = True and sigp = False and ws = "[]" and f = "rd_rc s1"
      and d = 0 and reg = 0]
  from c6w[THEN conjunct2, THEN conjunct2, THEN conjunct2, rule_format, OF prew]
  have w: "fst (aspeed_mbox_write u_src 3 2 s_flaky) = int 3"
    and wl: "\<forall>k<3. wr_rc s_flaky (ticks s_flaky + k) (data_addr (base s_flaky) (2 + k)) \<noteq> 0 \<longrightarrow>
         WriteFailed (wr_rc s_flaky (ticks s_flaky + k) (data_addr (base s_flaky) (2 + k))) (bytes u_src k)
           (ASPEED_MBOX_DATA_0 + (2 + k) * 4) \<in> set (klog (snd (aspeed_mbox_write u_src 3 2 s_flaky)))"
    by blast+
  have w1: "WriteFailed (- 5) 0xa1 12 \<in> set (klog (snd (aspeed_mbox_write u_src 3 2 s_flaky)))"
    using wl[rule_format, of 1] by (simp add: fl demo_addr sb ASPEED_MBOX_DATA_0_def)
  show ?thesis using h1 h2 g r r0 r1 r2 w w1 by (simp add: fl)
qed

subsection \<open>C7: a buffer fault during read\<close>

text \<open>
  C7 as stated fails: a read of three bytes at offset 2 that faults at the third byte, after
  two bytes have reached the caller's buffer, returns the bare error code \<open>-EFAULT = -14\<close>,
  the same value as a read that faults at its first byte: the return value carries no
  count.
\<close>

theorem C7_fault_counterexample:
  "fst (the (aspeed_mbox_read True False [] (u_fault 2) 3 2 s_pending)) = - 14 \<and>
   bytes (fst (snd (the (aspeed_mbox_read True False [] (u_fault 2) 3 2 s_pending)))) 0 = 0x11 \<and>
   bytes (fst (snd (the (aspeed_mbox_read True False [] (u_fault 2) 3 2 s_pending)))) 1 = 0x22 \<and>
   fst (the (aspeed_mbox_read True False [] (u_fault 0) 3 2 s_pending)) = - 14"
proof -
  define s1 where "s1 = snd (aspeed_mbox_inb s_pending ASPEED_MBOX_BMC_CTRL)"
  have b: "3 + 2 \<le> ASPEED_MBOX_NUM_REGS" by (simp add: ASPEED_MBOX_NUM_REGS_def)
  have r2: "aspeed_mbox_read True False [] (u_fault 2) 3 2 s_pending
              = Some (read_locked (u_fault 2) 3 2 s1)"
    by (rule read_reaches_lock[OF b]) (simp_all add: demo_buf sample_pending_gate s1_def)
  have r0: "aspeed_mbox_read True False [] (u_fault 0) 3 2 s_pending
              = Some (read_locked (u_fault 0) 3 2 s1)"
    by (rule read_reaches_lock[OF b]) (simp_all add: demo_buf sample_pending_gate s1_def)
  have l2: "read_locked (u_fault 2) 3 2 s1 =
     (- EFAULT, read_buf (u_fault 2) s1 2 0 2, emit MutexUnlock (read_state (emit MutexLock s1) 2 (Suc 2)))"
    by (rule read_locked_fault[OF b]) (simp_all add: demo_buf)
  have l0: "read_locked (u_fault 0) 3 2 s1 =
     (- EFAULT, read_buf (u_fault 0) s1 2 0 0, emit MutexUnlock (read_state (emit MutexLock s1) 2 (Suc 0)))"
    by (rule read_locked_fault[OF b]) (simp_all add: demo_buf)
  show ?thesis
    unfolding r2 r0 l2 l0 option.sel fst_conv snd_conv
    by (simp add: read_buf_bytes inb_value_def s1_def sample_pending_gate demo_addr EFAULT_def)
qed

text \<open>
  C7, amended. If, during read's copy loop, the destination buffer cannot accept byte
  \<open>n\<close> (the first one it cannot, \<open>n < count\<close>), the transfer stops there: read returns
  \<open>-EFAULT\<close> (Fault) alone, with no count; the \<open>n\<close> bytes copied so far are in the
  caller's buffer and the rest of the buffer is untouched; the driver has read data
  registers \<open>*ppos\<close> to \<open>*ppos + n\<close> and no further one, and has released the mutex.
\<close>

theorem C7_fault:
  assumes "count + ppos \<le> ASPEED_MBOX_NUM_REGS" and "access_ok u count"
    and "fst (aspeed_mbox_inb s ASPEED_MBOX_BMC_CTRL) AND ASPEED_MBOX_CTRL_RECV \<noteq> 0
          \<and> s1 = snd (aspeed_mbox_inb s ASPEED_MBOX_BMC_CTRL)
        \<or> \<not> nonblock \<and> wait_event_interruptible sigp ws s = Some (False, s1)"
    and "n < count" and "\<forall>k<n. mapped u k" and "\<not> mapped u n"
  shows
    "\<exists>u' s'. aspeed_mbox_read nonblock sigp ws u count ppos s = Some (- EFAULT, u', s') \<and>
       (\<forall>k<n. bytes u' k = inb_value s1 (ticks s1 + k) (data_addr (base s1) (ppos + k))) \<and>
       (\<forall>k. n \<le> k \<longrightarrow> bytes u' k = bytes u k) \<and>
       trace s' = trace s1 @ [MutexLock]
                    @ map (\<lambda>j. RegRead (data_addr (base s1) j)) [ppos..<ppos + Suc n]
                    @ [MutexUnlock]"
proof -
  let ?r = "read_locked u count ppos s1"
  have rd: "aspeed_mbox_read nonblock sigp ws u count ppos s = Some ?r"
    by (rule read_reaches_lock[OF assms(1,2,3)])
  have l: "?r = (- EFAULT, read_buf u s1 ppos 0 n,
                 emit MutexUnlock (read_state (emit MutexLock s1) ppos (Suc n)))"
    by (rule read_locked_fault[OF assms(1,4,5,6)])
  have "\<forall>k<n. bytes (read_buf u s1 ppos 0 n) k
                 = inb_value s1 (ticks s1 + k) (data_addr (base s1) (ppos + k))"
    by (simp add: read_buf_bytes)
  moreover have "\<forall>k. n \<le> k \<longrightarrow> bytes (read_buf u s1 ppos 0 n) k = bytes u k"
    by (simp add: read_buf_bytes)
  moreover have "trace (emit MutexUnlock (read_state (emit MutexLock s1) ppos (Suc n))) =
       trace s1 @ [MutexLock]
         @ map (\<lambda>j. RegRead (data_addr (base s1) j)) [ppos..<ppos + Suc n] @ [MutexUnlock]"
    using read_locked_fault_trace[OF assms(1,4,5,6), of s1] by (simp add: l)
  ultimately show ?thesis unfolding rd l by blast
qed

text \<open>The faulting read of the counterexample, through the theorem.\<close>

theorem C7_fault_witness:
  "3 + 2 \<le> ASPEED_MBOX_NUM_REGS \<and> access_ok (u_fault 2) 3 \<and>
   fst (aspeed_mbox_inb s_pending ASPEED_MBOX_BMC_CTRL) AND ASPEED_MBOX_CTRL_RECV \<noteq> 0 \<and>
   mapped (u_fault 2) 0 \<and> mapped (u_fault 2) 1 \<and> \<not> mapped (u_fault 2) 2 \<and>
   fst (the (aspeed_mbox_read True False [] (u_fault 2) 3 2 s_pending)) = - EFAULT \<and>
   bytes (fst (snd (the (aspeed_mbox_read True False [] (u_fault 2) 3 2 s_pending)))) 0 = 0x11 \<and>
   bytes (fst (snd (the (aspeed_mbox_read True False [] (u_fault 2) 3 2 s_pending)))) 1 = 0x22 \<and>
   bytes (fst (snd (the (aspeed_mbox_read True False [] (u_fault 2) 3 2 s_pending)))) 2 = 0 \<and>
   trace (snd (snd (the (aspeed_mbox_read True False [] (u_fault 2) 3 2 s_pending)))) =
     [RegRead 0x1c8, MutexLock, RegRead 0x188, RegRead 0x18c, RegRead 0x190, MutexUnlock]"
proof -
  define s1 where "s1 = snd (aspeed_mbox_inb s_pending ASPEED_MBOX_BMC_CTRL)"
  have h1: "3 + 2 \<le> ASPEED_MBOX_NUM_REGS" by (simp add: ASPEED_MBOX_NUM_REGS_def)
  have h2: "access_ok (u_fault 2) 3" by (simp add: demo_buf)
  have h3: "fst (aspeed_mbox_inb s_pending ASPEED_MBOX_BMC_CTRL) AND ASPEED_MBOX_CTRL_RECV \<noteq> 0
          \<and> s1 = snd (aspeed_mbox_inb s_pending ASPEED_MBOX_BMC_CTRL)
        \<or> \<not> True \<and> wait_event_interruptible False [] s_pending = Some (False, s1)"
    by (simp add: sample_pending_gate s1_def)
  have h4: "(2::nat) < 3" by simp
  have h5: "\<forall>k<2. mapped (u_fault 2) k" by (simp add: demo_buf)
  have h6: "\<not> mapped (u_fault 2) 2" by (simp add: demo_buf)
  from C7_fault[OF h1 h2 h3 h4 h5 h6]
  obtain u' s' where r: "aspeed_mbox_read True False [] (u_fault 2) 3 2 s_pending = Some (- EFAULT, u', s')"
    and b: "\<forall>k<2. bytes u' k = inb_value s1 (ticks s1 + k) (data_addr (base s1) (2 + k))"
    and o: "\<forall>k. 2 \<le> k \<longrightarrow> bytes u' k = bytes (u_fault 2) k"
    and t: "trace s' = trace s1 @ [MutexLock]
                    @ map (\<lambda>j. RegRead (data_addr (base s1) j)) [2..<2 + Suc 2] @ [MutexUnlock]"
    by blast
  have "bytes u' 0 = 0x11" "bytes u' 1 = 0x22"
    using b[rule_format, of 0] b[rule_format, of 1]
    by (simp_all add: inb_value_def s1_def sample_pending_gate demo_addr)
  moreover have "bytes u' 2 = 0" using o[rule_format, of 2] by (simp add: demo_buf)
  moreover have "[2..<2 + Suc 2] = [2, 3, 4::nat]" by (simp add: upt_rec)
  then have "trace s' = [RegRead 0x1c8, MutexLock, RegRead 0x188, RegRead 0x18c, RegRead 0x190,
      MutexUnlock]"
    using t by (simp add: s1_def sample_pending_gate demo_addr)
  ultimately show ?thesis using h1 h2 h5 h6 r sample_pending_gate(1) by simp
qed

subsection \<open>C8: the results of write\<close>

text \<open>
  C8 as stated fails: a write whose buffer does not pass \<open>access_ok\<close>, and a write of two
  bytes whose second byte cannot be read, both return \<open>-EFAULT\<close>, which is neither a
  number of bytes (it is negative) nor \<open>-EINVAL\<close>. The second one has written a byte to the
  mailbox before it fails.
\<close>

theorem C8_write_results_counterexample:
  "fst (aspeed_mbox_write u_noaccess 1 0 s_idle) = - EFAULT \<and>
   fst (aspeed_mbox_write (u_fault 1) 2 0 s_idle) = - EFAULT \<and>
   trace (snd (aspeed_mbox_write (u_fault 1) 2 0 s_idle)) = [MutexLock, RegWrite 0x180 0, MutexUnlock] \<and>
   - EFAULT < 0 \<and> - EFAULT \<noteq> - EINVAL"
proof -
  have "aspeed_mbox_write (u_fault 1) 2 0 s_idle =
     (- EFAULT, emit MutexUnlock (write_state (emit MutexLock s_idle) (u_fault 1) 0 0 1))"
    by (rule write_fault) (simp_all add: demo_buf ASPEED_MBOX_NUM_REGS_def)
  then show ?thesis
    by (simp add: aspeed_mbox_write_def demo_buf write_state_def emit_def demo_eval demo_addr
        EFAULT_def EINVAL_def)
qed

text \<open>
  C8, amended. For every input, write returns \<open>-EFAULT\<close> (Fault) when the buffer does not
  pass \<open>access_ok\<close>; else \<open>-EINVAL\<close> (InvalidArgument) when \<open>count + *ppos > 16\<close>; else
  \<open>count\<close>, the number of bytes written, when every source byte can be read, and
  \<open>-EFAULT\<close> when one cannot. There is no other result.
\<close>

theorem C8_write_results:
  "fst (aspeed_mbox_write u count ppos s) =
     (if \<not> access_ok u count then - EFAULT
      else if count + ppos > ASPEED_MBOX_NUM_REGS then - EINVAL
      else if \<forall>k<count. mapped u k then int count
      else - EFAULT)"
proof (cases "access_ok u count \<and> count + ppos \<le> ASPEED_MBOX_NUM_REGS")
  case False
  then show ?thesis by (auto simp add: aspeed_mbox_write_def)
next
  case True
  then have a: "access_ok u count" and b: "count + ppos \<le> ASPEED_MBOX_NUM_REGS" by simp_all
  show ?thesis
  proof (cases "\<forall>k<count. mapped u k")
    case True
    then show ?thesis using a b by (simp add: write_ok)
  next
    case False
    then obtain n where n: "n < count" "\<forall>k<n. mapped u k" "\<not> mapped u n"
      using first_unmapped[of count u] by blast
    have e: "(\<forall>k<count. mapped u k) = False" using False by simp
    have na: "(\<not> access_ok u count) = False" using a by simp
    have nb: "(count + ppos > ASPEED_MBOX_NUM_REGS) = False" using b by simp
    have "fst (aspeed_mbox_write u count ppos s) = - EFAULT"
      by (simp add: write_fault[OF b a n])
    then show ?thesis by (simp only: e na nb if_False)
  qed
qed

text \<open>The four results of write, on the sample mailbox.\<close>

theorem C8_write_results_witness:
  "fst (aspeed_mbox_write u_noaccess 1 0 s_idle) = - EFAULT \<and>
   fst (aspeed_mbox_write u_src 10 7 s_idle) = - EINVAL \<and>
   fst (aspeed_mbox_write u_src 3 2 s_idle) = 3 \<and>
   fst (aspeed_mbox_write (u_fault 1) 2 0 s_idle) = - EFAULT"
proof -
  have 1: "fst (aspeed_mbox_write u_noaccess 1 0 s_idle) = - EFAULT"
    using C8_write_results[of u_noaccess 1 0 s_idle] by (simp add: demo_buf)
  have 2: "fst (aspeed_mbox_write u_src 10 7 s_idle) = - EINVAL"
    using C8_write_results[of u_src 10 7 s_idle]
    by (simp add: access_ok_def u_src_def ASPEED_MBOX_NUM_REGS_def)
  have 3: "fst (aspeed_mbox_write u_src 3 2 s_idle) = 3"
    using C8_write_results[of u_src 3 2 s_idle]
    by (simp add: access_ok_def u_src_def ASPEED_MBOX_NUM_REGS_def)
  have "\<not> mapped (u_fault 1) 1" by (simp add: demo_buf)
  then have "\<not> (\<forall>k<2. mapped (u_fault 1) k)" by (intro notI) (simp del: One_nat_def)
  then have e: "(\<forall>k<2. mapped (u_fault 1) k) = False" by simp
  have c: "(\<not> access_ok (u_fault 1) 2) = False" "(2 + 0 > ASPEED_MBOX_NUM_REGS) = False"
    by (simp_all add: demo_buf ASPEED_MBOX_NUM_REGS_def)
  have 4: "fst (aspeed_mbox_write (u_fault 1) 2 0 s_idle) = - EFAULT"
    by (simp only: C8_write_results e c if_False)
  show ?thesis using 1 2 3 4 by simp
qed

subsection \<open>C9: a faulting read skips the acknowledge\<close>




subsection \<open>C10: a failing read of the control register\<close>

text \<open>
  C10. When the bus read of the BMC control register fails, \<open>aspeed_mbox_inb\<close> returns the
  sentinel \<open>0xff\<close>, whose bit 7 (RECV) is set. So poll reports \<open>POLLIN\<close>, the interrupt
  handler returns \<open>IRQ_HANDLED\<close>, and a non-blocking read with a valid buffer and range
  goes on to the lock and the copy loop: its result is never \<open>-EAGAIN\<close>. What the caller
  sees is what it would see of the same mailbox with the control register read succeeding
  and RECV set (\<open>pending_twin\<close>): the same poll mask, the same interrupt result, the same
  return value and buffer from a non-blocking read.
\<close>

theorem C10_ctrl_read_failure:
  assumes "rd_rc s (ticks s) (ctrl_addr (base s)) \<noteq> 0"
  shows
    "fst (aspeed_mbox_inb s ASPEED_MBOX_BMC_CTRL) = 0xff \<and> bit (0xff::u8) 7 \<and>
     fst (aspeed_mbox_poll s) = POLLIN \<and>
     fst (aspeed_mbox_irq s) = IRQ_HANDLED \<and>
     (count + ppos \<le> ASPEED_MBOX_NUM_REGS \<and> access_ok u count \<longrightarrow>
        aspeed_mbox_read True sigp ws u count ppos s =
          Some (read_locked u count ppos (snd (aspeed_mbox_inb s ASPEED_MBOX_BMC_CTRL))) \<and>
        fst (the (aspeed_mbox_read True sigp ws u count ppos s)) \<noteq> - EAGAIN) \<and>
     fst (aspeed_mbox_poll (pending_twin s)) = fst (aspeed_mbox_poll s) \<and>
     fst (aspeed_mbox_irq (pending_twin s)) = fst (aspeed_mbox_irq s) \<and>
     visible (aspeed_mbox_read True sigp ws u count ppos (pending_twin s)) =
       visible (aspeed_mbox_read True sigp ws u count ppos s)"
proof -
  note f = failed_ctrl_read[OF assms]
  have p: "fst (aspeed_mbox_poll s) = POLLIN" "fst (aspeed_mbox_poll (pending_twin s)) = POLLIN"
    using f(2) twin_observes_recv[of s] by (simp_all add: poll_result)
  have i: "fst (aspeed_mbox_irq s) = IRQ_HANDLED" "fst (aspeed_mbox_irq (pending_twin s)) = IRQ_HANDLED"
    using f(2) twin_observes_recv[of s] by (simp_all add: irq_result)
  have r: "count + ppos \<le> ASPEED_MBOX_NUM_REGS \<and> access_ok u count \<longrightarrow>
        aspeed_mbox_read True sigp ws u count ppos s =
          Some (read_locked u count ppos (snd (aspeed_mbox_inb s ASPEED_MBOX_BMC_CTRL))) \<and>
        fst (the (aspeed_mbox_read True sigp ws u count ppos s)) \<noteq> - EAGAIN"
  proof
    assume h: "count + ppos \<le> ASPEED_MBOX_NUM_REGS \<and> access_ok u count"
    then have b: "count + ppos \<le> ASPEED_MBOX_NUM_REGS" and a: "access_ok u count" by simp_all
    have e: "aspeed_mbox_read True sigp ws u count ppos s =
          Some (read_locked u count ppos (snd (aspeed_mbox_inb s ASPEED_MBOX_BMC_CTRL)))"
      by (rule read_reaches_lock[OF b a]) (simp add: f(2))
    show "aspeed_mbox_read True sigp ws u count ppos s =
          Some (read_locked u count ppos (snd (aspeed_mbox_inb s ASPEED_MBOX_BMC_CTRL))) \<and>
        fst (the (aspeed_mbox_read True sigp ws u count ppos s)) \<noteq> - EAGAIN"
      unfolding e using read_locked_not_eagain[OF b] by simp
  qed
  have b7: "bit (0xff::u8) 7" by simp
  have pe: "fst (aspeed_mbox_poll (pending_twin s)) = fst (aspeed_mbox_poll s)"
    using p by simp
  have ie: "fst (aspeed_mbox_irq (pending_twin s)) = fst (aspeed_mbox_irq s)"
    using i by simp
  note ve = read_twin_visible[OF assms, of sigp ws u count ppos]
  show ?thesis
    using f(1) b7 p(1) i(1) r pe ie ve by blast
qed

text \<open>
  The idle sample mailbox (RECV clear in the register) on a bus where every read of the
  control register fails: poll, the interrupt handler and a non-blocking read of three
  bytes at offset 2 all behave as if a message were pending.
\<close>

theorem C10_ctrl_read_failure_witness:
  "rd_rc s_ctrl_dead (ticks s_ctrl_dead) (ctrl_addr (base s_ctrl_dead)) = - 5 \<and>
   \<not> bit (regs s_ctrl_dead (ctrl_addr (base s_ctrl_dead))) 7 \<and>
   fst (aspeed_mbox_poll s_ctrl_dead) = POLLIN \<and>
   fst (aspeed_mbox_irq s_ctrl_dead) = IRQ_HANDLED \<and>
   3 + 2 \<le> ASPEED_MBOX_NUM_REGS \<and> access_ok u_ok 3 \<and>
   fst (the (aspeed_mbox_read True False [] u_ok 3 2 s_ctrl_dead)) = 3 \<and>
   bytes (fst (snd (the (aspeed_mbox_read True False [] u_ok 3 2 s_ctrl_dead)))) 0 = 0x11 \<and>
   visible (aspeed_mbox_read True False [] u_ok 3 2 (pending_twin s_ctrl_dead)) =
     visible (aspeed_mbox_read True False [] u_ok 3 2 s_ctrl_dead)"
proof -
  define s1 where "s1 = snd (aspeed_mbox_inb s_ctrl_dead ASPEED_MBOX_BMC_CTRL)"
  have d: "base s_ctrl_dead = 0x180" "ticks s_ctrl_dead = 0"
    "rd_rc s_ctrl_dead t a = (if a = 0x1c8 then - 5 else 0)"
    "regs s_ctrl_dead = (\<lambda>a. 0)(0x188 := 0x11, 0x18c := 0x22, 0x190 := 0x33)" for t a
    by (simp_all add: s_ctrl_dead_def demo_eval)
  have h: "rd_rc s_ctrl_dead (ticks s_ctrl_dead) (ctrl_addr (base s_ctrl_dead)) \<noteq> 0"
    by (simp add: d demo_addr)
  have h1: "3 + 2 \<le> ASPEED_MBOX_NUM_REGS" by (simp add: ASPEED_MBOX_NUM_REGS_def)
  have h2: "access_ok u_ok 3" by (simp add: demo_buf)
  have s1: "base s1 = 0x180" "ticks s1 = 1" "rd_rc s1 t a = (if a = 0x1c8 then - 5 else 0)"
    "regs s1 = (\<lambda>a. 0)(0x188 := 0x11, 0x18c := 0x22, 0x190 := 0x33)" for t a
    by (simp_all add: s1_def inb_ctrl_proj d)
  note c = C10_ctrl_read_failure[OF h, where count = 3 and ppos = 2 and u = u_ok
      and sigp = False and ws = "[]"]
  have rl: "read_locked u_ok 3 2 s1 =
     (int 3, read_buf u_ok s1 2 0 3,
      emit MutexUnlock (aspeed_mbox_outb (read_state (emit MutexLock s1) 2 3)
        ASPEED_MBOX_CTRL_RECV ASPEED_MBOX_BMC_CTRL))"
    by (rule read_locked_ok[OF h1]) (simp add: demo_buf)
  have r: "aspeed_mbox_read True False [] u_ok 3 2 s_ctrl_dead = Some (read_locked u_ok 3 2 s1)"
    using c h1 h2 by (simp add: s1_def)
  have v: "fst (the (aspeed_mbox_read True False [] u_ok 3 2 s_ctrl_dead)) = 3"
    "bytes (fst (snd (the (aspeed_mbox_read True False [] u_ok 3 2 s_ctrl_dead)))) 0 = 0x11"
    unfolding r rl by (simp_all add: read_buf_bytes inb_value_def s1 demo_addr)
  have nb: "\<not> bit (regs s_ctrl_dead (ctrl_addr (base s_ctrl_dead))) 7"
    by (simp add: d demo_addr)
  show ?thesis using c h1 h2 v nb by (simp add: d demo_addr)
qed

end
